theory Spec2Isabelle
  imports Main "HOL-Library.Sublist" "HOL-Library.Multiset"
begin

section \<open>Data model (types.ts)\<close>

text \<open>
  The interfaces of \<^verbatim>\<open>types.ts\<close> as records. Optional fields are options; the field
  names keep the source's names except where they would hide a constant of HOL
  (\<^verbatim>\<open>id\<close>, \<^verbatim>\<open>name\<close>, \<^verbatim>\<open>size\<close>), which get the prefix of their interface.
  A JavaScript \<^verbatim>\<open>number\<close> that holds an index or a count is an \<^typ>\<open>int\<close>.
  A \<^verbatim>\<open>Record<string, string>\<close> is a map; the order of its keys is not observed by
  any operation modelled here.
\<close>

record Application =
  app_id :: string
  app_name :: string
  bundleIdentifier :: string
  app_path :: string
  app_version :: "string option"
  app_icon :: "string option"
  category :: "string option"
  lastModified :: string
  app_size :: "int option"

record LaunchmatFolder =
  folder_id :: string
  folder_name :: string
  color :: string
  icon :: string
  applicationIds :: "string list"
  position :: int
  createdAt :: string
  updatedAt :: "string option"

type_synonym mappings = "string \<rightharpoonup> string"

record LaunchmatSettings =
  settings_folders :: "LaunchmatFolder list"
  applicationMappings :: mappings
  lastScanTime :: string
  settings_version :: string

section \<open>The key-value backend (LocalStorage of the host API)\<close>

text \<open>
  \<^verbatim>\<open>StorageManager\<close> keeps four keys in the host's \<^verbatim>\<open>LocalStorage\<close>. Three of them hold
  the \<^verbatim>\<open>JSON.stringify\<close> text of a typed value and are read back with
  \<^verbatim>\<open>JSON.parse\<close>; the model stores the typed value itself (\<^verbatim>\<open>None\<close>: no item under
  the key), so that parsing the text that was written gives the value that was
  written. \<^verbatim>\<open>getItem\<close> and \<^verbatim>\<open>setItem\<close> are promises that may reject: the two
  predicates say for which keys the backend rejects. A rejected \<^verbatim>\<open>setItem\<close> leaves
  the item as it was.
\<close>

datatype storage_key =
  STORAGE_KEY_FOLDERS | STORAGE_KEY_SETTINGS | STORAGE_KEY_APP_MAPPINGS | STORAGE_KEY_LAST_SCAN

record LocalStorage =
  folders_item :: "LaunchmatFolder list option"
  settings_item :: "LaunchmatSettings option"
  app_mappings_item :: "mappings option"
  last_scan_item :: "string option"
  getItem_fails :: "storage_key \<Rightarrow> bool"
  setItem_fails :: "storage_key \<Rightarrow> bool"

datatype error =
  GetItemRejected storage_key
| SetItemRejected storage_key
| JsonSyntaxError

definition empty_store :: LocalStorage where
  "empty_store = \<lparr>folders_item = None, settings_item = None, app_mappings_item = None,
     last_scan_item = None, getItem_fails = (\<lambda>k. False), setItem_fails = (\<lambda>k. False)\<rparr>"

definition getItem_folders :: "LocalStorage \<Rightarrow> error + LaunchmatFolder list option" where
  "getItem_folders st =
     (if getItem_fails st STORAGE_KEY_FOLDERS then Inl (GetItemRejected STORAGE_KEY_FOLDERS)
      else Inr (folders_item st))"

definition getItem_settings :: "LocalStorage \<Rightarrow> error + LaunchmatSettings option" where
  "getItem_settings st =
     (if getItem_fails st STORAGE_KEY_SETTINGS then Inl (GetItemRejected STORAGE_KEY_SETTINGS)
      else Inr (settings_item st))"

definition getItem_app_mappings :: "LocalStorage \<Rightarrow> error + mappings option" where
  "getItem_app_mappings st =
     (if getItem_fails st STORAGE_KEY_APP_MAPPINGS
      then Inl (GetItemRejected STORAGE_KEY_APP_MAPPINGS)
      else Inr (app_mappings_item st))"

definition getItem_last_scan :: "LocalStorage \<Rightarrow> error + string option" where
  "getItem_last_scan st =
     (if getItem_fails st STORAGE_KEY_LAST_SCAN then Inl (GetItemRejected STORAGE_KEY_LAST_SCAN)
      else Inr (last_scan_item st))"

definition setItem_folders ::
  "LaunchmatFolder list \<Rightarrow> LocalStorage \<Rightarrow> (error + unit) \<times> LocalStorage" where
  "setItem_folders fs st =
     (if setItem_fails st STORAGE_KEY_FOLDERS
      then (Inl (SetItemRejected STORAGE_KEY_FOLDERS), st)
      else (Inr (), st\<lparr>folders_item := Some fs\<rparr>))"

definition setItem_settings ::
  "LaunchmatSettings \<Rightarrow> LocalStorage \<Rightarrow> (error + unit) \<times> LocalStorage" where
  "setItem_settings s st =
     (if setItem_fails st STORAGE_KEY_SETTINGS
      then (Inl (SetItemRejected STORAGE_KEY_SETTINGS), st)
      else (Inr (), st\<lparr>settings_item := Some s\<rparr>))"

definition setItem_app_mappings ::
  "mappings \<Rightarrow> LocalStorage \<Rightarrow> (error + unit) \<times> LocalStorage" where
  "setItem_app_mappings m st =
     (if setItem_fails st STORAGE_KEY_APP_MAPPINGS
      then (Inl (SetItemRejected STORAGE_KEY_APP_MAPPINGS), st)
      else (Inr (), st\<lparr>app_mappings_item := Some m\<rparr>))"

definition setItem_last_scan ::
  "string \<Rightarrow> LocalStorage \<Rightarrow> (error + unit) \<times> LocalStorage" where
  "setItem_last_scan t st =
     (if setItem_fails st STORAGE_KEY_LAST_SCAN
      then (Inl (SetItemRejected STORAGE_KEY_LAST_SCAN), st)
      else (Inr (), st\<lparr>last_scan_item := Some t\<rparr>))"

section \<open>StorageManager: defaults, loads and saves\<close>

text \<open>
  \<^verbatim>\<open>new Date().toISOString()\<close> is the parameter \<open>now\<close> of every operation that reads
  the clock.
\<close>

definition defaultColors :: "string list" where
  "defaultColors = [''#FF6B6B'', ''#4ECDC4'', ''#45B7D1'', ''#96CEB4'',
                    ''#FECA57'', ''#FF9FF3'', ''#54A0FF'', ''#5F27CD'']"

definition createDefaultFolders :: "string \<Rightarrow> LaunchmatFolder list" where
  "createDefaultFolders now =
    [\<lparr>folder_id = ''folder_productivity'', folder_name = ''Productivity'',
      color = defaultColors ! 0, icon = ''briefcase'', applicationIds = [], position = 0,
      createdAt = now, updatedAt = None\<rparr>,
     \<lparr>folder_id = ''folder_development'', folder_name = ''Development'',
      color = defaultColors ! 1, icon = ''code'', applicationIds = [], position = 1,
      createdAt = now, updatedAt = None\<rparr>,
     \<lparr>folder_id = ''folder_graphics'', folder_name = ''Graphics & Design'',
      color = defaultColors ! 2, icon = ''paintbrush'', applicationIds = [], position = 2,
      createdAt = now, updatedAt = None\<rparr>,
     \<lparr>folder_id = ''folder_entertainment'', folder_name = ''Entertainment'',
      color = defaultColors ! 3, icon = ''play'', applicationIds = [], position = 3,
      createdAt = now, updatedAt = None\<rparr>,
     \<lparr>folder_id = ''folder_utilities'', folder_name = ''Utilities'',
      color = defaultColors ! 4, icon = ''wrench'', applicationIds = [], position = 4,
      createdAt = now, updatedAt = None\<rparr>,
     \<lparr>folder_id = ''folder_games'', folder_name = ''Games'',
      color = defaultColors ! 5, icon = ''gamepad'', applicationIds = [], position = 5,
      createdAt = now, updatedAt = None\<rparr>,
     \<lparr>folder_id = ''folder_communication'', folder_name = ''Communication'',
      color = defaultColors ! 6, icon = ''message-circle'', applicationIds = [], position = 6,
      createdAt = now, updatedAt = None\<rparr>,
     \<lparr>folder_id = ''folder_other'', folder_name = ''Other'',
      color = defaultColors ! 7, icon = ''grid'', applicationIds = [], position = 7,
      createdAt = now, updatedAt = None\<rparr>]"

definition createDefaultSettings :: "string \<Rightarrow> LaunchmatSettings" where
  "createDefaultSettings now =
     \<lparr>settings_folders = [], applicationMappings = Map.empty, lastScanTime = now,
      settings_version = ''1.0.0''\<rparr>"

text \<open>
  The loads catch every rejection and return a default. None of them calls
  \<^verbatim>\<open>setItem\<close>: the store they return is the store they were given.
\<close>

definition loadFolders :: "string \<Rightarrow> LocalStorage \<Rightarrow> LaunchmatFolder list \<times> LocalStorage" where
  "loadFolders now st =
     (case getItem_folders st of
        Inl e \<Rightarrow> (createDefaultFolders now, st)
      | Inr None \<Rightarrow> (createDefaultFolders now, st)
      | Inr (Some fs) \<Rightarrow> (fs, st))"

definition loadSettings :: "string \<Rightarrow> LocalStorage \<Rightarrow> LaunchmatSettings \<times> LocalStorage" where
  "loadSettings now st =
     (case getItem_settings st of
        Inl e \<Rightarrow> (createDefaultSettings now, st)
      | Inr None \<Rightarrow> (createDefaultSettings now, st)
      | Inr (Some s) \<Rightarrow> (s, st))"

definition loadApplicationMappings :: "LocalStorage \<Rightarrow> mappings \<times> LocalStorage" where
  "loadApplicationMappings st =
     (case getItem_app_mappings st of
        Inl e \<Rightarrow> (Map.empty, st)
      | Inr None \<Rightarrow> (Map.empty, st)
      | Inr (Some m) \<Rightarrow> (m, st))"

text \<open>\<^verbatim>\<open>getItem(...) || null\<close>: the empty string is falsy.\<close>

definition getLastScanTime :: "LocalStorage \<Rightarrow> string option \<times> LocalStorage" where
  "getLastScanTime st =
     (case getItem_last_scan st of
        Inl e \<Rightarrow> (None, st)
      | Inr None \<Rightarrow> (None, st)
      | Inr (Some t) \<Rightarrow> (if t = [] then None else Some t, st))"

text \<open>The saves log and rethrow; \<^verbatim>\<open>setLastScanTime\<close> logs and returns.\<close>

definition saveFolders ::
  "LaunchmatFolder list \<Rightarrow> LocalStorage \<Rightarrow> (error + unit) \<times> LocalStorage" where
  "saveFolders fs st =
     (case setItem_folders fs st of
        (Inl e, st') \<Rightarrow> (Inl e, st')
      | (Inr u, st') \<Rightarrow> (Inr (), st'))"

definition saveSettings ::
  "LaunchmatSettings \<Rightarrow> LocalStorage \<Rightarrow> (error + unit) \<times> LocalStorage" where
  "saveSettings s st =
     (case setItem_settings s st of
        (Inl e, st') \<Rightarrow> (Inl e, st')
      | (Inr u, st') \<Rightarrow> (Inr (), st'))"

definition saveApplicationMappings ::
  "mappings \<Rightarrow> LocalStorage \<Rightarrow> (error + unit) \<times> LocalStorage" where
  "saveApplicationMappings m st =
     (case setItem_app_mappings m st of
        (Inl e, st') \<Rightarrow> (Inl e, st')
      | (Inr u, st') \<Rightarrow> (Inr (), st'))"

definition setLastScanTime :: "string \<Rightarrow> LocalStorage \<Rightarrow> (error + unit) \<times> LocalStorage" where
  "setLastScanTime t st =
     (case setItem_last_scan t st of
        (Inl e, st') \<Rightarrow> (Inr (), st')
      | (Inr u, st') \<Rightarrow> (Inr (), st'))"

section \<open>StorageManager: folder and mapping operations\<close>

text \<open>
  \<^verbatim>\<open>const f = xs.find(p); if (f) { ...mutate f... }\<close> changes the first element that
  satisfies \<open>p\<close> in place and no other.
\<close>

fun update_first :: "('a \<Rightarrow> bool) \<Rightarrow> ('a \<Rightarrow> 'a) \<Rightarrow> 'a list \<Rightarrow> 'a list" where
  "update_first p g [] = []"
| "update_first p g (x # xs) = (if p x then g x # xs else x # update_first p g xs)"

definition find_folder :: "string \<Rightarrow> LaunchmatFolder list \<Rightarrow> LaunchmatFolder option" where
  "find_folder fid folders = List.find (\<lambda>f. folder_id f = fid) folders"

fun findIndex :: "('a \<Rightarrow> bool) \<Rightarrow> 'a list \<Rightarrow> nat option" where
  "findIndex p [] = None"
| "findIndex p (x # xs) = (if p x then Some 0 else map_option Suc (findIndex p xs))"

definition push_app :: "string \<Rightarrow> LaunchmatFolder \<Rightarrow> LaunchmatFolder" where
  "push_app appId f = f\<lparr>applicationIds := applicationIds f @ [appId]\<rparr>"

subsection \<open>autoCategorizeNewApps and getCategoryForApp\<close>

text \<open>
  \<^verbatim>\<open>toLowerCase\<close> on the bytes of the string: the letters A to Z are lowered, every
  other byte is kept, which is what JavaScript does on ASCII text. (Outside ASCII,
  JavaScript lowers the Kelvin sign to \<^verbatim>\<open>k\<close>; no key of \<^verbatim>\<open>categoryMapping\<close> has that
  letter.)
\<close>

definition toLowerCase_char :: "char \<Rightarrow> char" where
  "toLowerCase_char c =
     (let n = (of_char c :: nat) in if 65 \<le> n \<and> n \<le> 90 then char_of (n + 32) else c)"

definition toLowerCase :: "string \<Rightarrow> string" where
  "toLowerCase s = map toLowerCase_char s"

definition categoryMapping :: "(string \<times> string) list" where
  "categoryMapping =
     [(''productivity'', ''folder_productivity''),
      (''development'', ''folder_development''),
      (''graphics'', ''folder_graphics''),
      (''entertainment'', ''folder_entertainment''),
      (''utilities'', ''folder_utilities''),
      (''games'', ''folder_games''),
      (''communication'', ''folder_communication''),
      (''finance'', ''folder_utilities''),
      (''social'', ''folder_communication''),
      (''other'', ''folder_other'')]"

text \<open>
  A category that is no key of the table (also one that names a property every
  JavaScript object inherits, whose value is no string and so the id of no folder)
  ends in \<^verbatim>\<open>"folder_other"\<close>.
\<close>

definition getCategoryForApp :: "Application \<Rightarrow> LaunchmatFolder list \<Rightarrow> string" where
  "getCategoryForApp app folders =
     (let category' = (case category app of None \<Rightarrow> ''other''
                       | Some c \<Rightarrow> if toLowerCase c = [] then ''other'' else toLowerCase c);
          targetFolderId = (case map_of categoryMapping category' of
                              None \<Rightarrow> ''folder_other'' | Some fid \<Rightarrow> fid)
      in case find_folder targetFolderId folders of
           Some targetFolder \<Rightarrow> targetFolderId
         | None \<Rightarrow> ''folder_other'')"

text \<open>
  The loop over \<^verbatim>\<open>uncategorizedApps\<close>. \<^verbatim>\<open>folders\<close> is a shallow copy of
  \<^verbatim>\<open>existingFolders\<close>: the loop changes the folder objects that both arrays share.
\<close>

fun categorize_apps ::
  "Application list \<Rightarrow> LaunchmatFolder list \<Rightarrow> mappings \<Rightarrow> LaunchmatFolder list \<times> mappings" where
  "categorize_apps [] folders updatedMappings = (folders, updatedMappings)"
| "categorize_apps (app # apps) folders updatedMappings =
     (case find_folder (getCategoryForApp app folders) folders of
        None \<Rightarrow> categorize_apps apps folders updatedMappings
      | Some targetFolder \<Rightarrow>
          if app_id app \<notin> set (applicationIds targetFolder)
          then categorize_apps apps
                 (update_first (\<lambda>f. folder_id f = getCategoryForApp app folders)
                    (push_app (app_id app)) folders)
                 (updatedMappings(app_id app \<mapsto> getCategoryForApp app folders))
          else categorize_apps apps folders updatedMappings)"

text \<open>
  A rejected save is caught: the operation then returns \<^verbatim>\<open>existingFolders\<close>, the
  array whose elements the loop has already changed, so what it returns has the
  content of \<^verbatim>\<open>folders\<close> on every path.
\<close>

definition autoCategorizeNewApps ::
  "Application list \<Rightarrow> LaunchmatFolder list \<Rightarrow> LocalStorage
     \<Rightarrow> LaunchmatFolder list \<times> LocalStorage" where
  "autoCategorizeNewApps applications existingFolders st =
     (let (mappings, st1) = loadApplicationMappings st;
          uncategorizedApps = filter (\<lambda>app. mappings (app_id app) = None) applications;
          (folders, updatedMappings) = categorize_apps uncategorizedApps existingFolders mappings
      in case saveApplicationMappings updatedMappings st1 of
           (Inl e, st2) \<Rightarrow> (folders, st2)
         | (Inr u, st2) \<Rightarrow>
             (case saveFolders folders st2 of
                (Inl e, st3) \<Rightarrow> (folders, st3)
              | (Inr u, st3) \<Rightarrow> (folders, st3)))"

subsection \<open>moveAppToFolder\<close>

text \<open>\<^verbatim>\<open>if (fromFolderId)\<close>: \<^verbatim>\<open>null\<close> and the empty string are falsy.\<close>

definition remove_app :: "string \<Rightarrow> LaunchmatFolder \<Rightarrow> LaunchmatFolder" where
  "remove_app appId f = f\<lparr>applicationIds := filter (\<lambda>i. i \<noteq> appId) (applicationIds f)\<rparr>"

definition add_app :: "string \<Rightarrow> LaunchmatFolder \<Rightarrow> LaunchmatFolder" where
  "add_app appId f = (if appId \<in> set (applicationIds f) then f else push_app appId f)"

definition moveAppToFolder ::
  "string \<Rightarrow> string option \<Rightarrow> string \<Rightarrow> string \<Rightarrow> LocalStorage
     \<Rightarrow> (error + unit) \<times> LocalStorage" where
  "moveAppToFolder appId fromFolderId toFolderId now st =
     (let (folders, st1) = loadFolders now st;
          (mappings, st2) = loadApplicationMappings st1;
          folders1 = (case fromFolderId of
                        None \<Rightarrow> folders
                      | Some fid \<Rightarrow>
                          if fid = [] then folders
                          else update_first (\<lambda>f. folder_id f = fid) (remove_app appId) folders);
          folders2 = update_first (\<lambda>f. folder_id f = toFolderId) (add_app appId) folders1;
          mappings' = mappings(appId \<mapsto> toFolderId)
      in case saveFolders folders2 st2 of
           (Inl e, st3) \<Rightarrow> (Inl e, st3)
         | (Inr u, st3) \<Rightarrow> saveApplicationMappings mappings' st3)"

subsection \<open>createFolder\<close>

text \<open>\<^verbatim>\<open>Date.now()\<close> is the parameter \<open>now_ms\<close>, printed in decimal for the id.\<close>

fun string_of_nat :: "nat \<Rightarrow> string" where
  "string_of_nat n =
     (if n < 10 then [char_of (48 + n)]
      else string_of_nat (n div 10) @ [char_of (48 + n mod 10)])"

declare string_of_nat.simps [simp del]

definition createFolder ::
  "string \<Rightarrow> string \<Rightarrow> string \<Rightarrow> nat \<Rightarrow> string \<Rightarrow> LocalStorage
     \<Rightarrow> (error + LaunchmatFolder) \<times> LocalStorage" where
  "createFolder name' color' icon' now_ms now st =
     (let (folders, st1) = loadFolders now st;
          newFolder = \<lparr>folder_id = ''folder_'' @ string_of_nat now_ms, folder_name = name',
                       color = color', icon = icon', applicationIds = [],
                       position = int (length folders), createdAt = now, updatedAt = None\<rparr>
      in case saveFolders (folders @ [newFolder]) st1 of
           (Inl e, st2) \<Rightarrow> (Inl e, st2)
         | (Inr u, st2) \<Rightarrow> (Inr newFolder, st2))"

subsection \<open>deleteFolder\<close>

text \<open>
  The loop over \<^verbatim>\<open>folder.applicationIds\<close>, on the ids of the catch-all folder and
  the mapping table. When the folder to delete is the catch-all folder itself, the
  array read and the array written are one array; every id read is then already in
  it and nothing is pushed, which is what the function below computes from two copies.
\<close>

fun reassign_apps :: "string list \<Rightarrow> string list \<Rightarrow> mappings \<Rightarrow> string list \<times> mappings" where
  "reassign_apps [] otherIds mappings = (otherIds, mappings)"
| "reassign_apps (appId # appIds) otherIds mappings =
     reassign_apps appIds
       (if appId \<in> set otherIds then otherIds else otherIds @ [appId])
       (mappings(appId \<mapsto> ''folder_other''))"

definition splice1 :: "nat \<Rightarrow> 'a list \<Rightarrow> 'a list" where
  "splice1 i xs = take i xs @ drop (Suc i) xs"

definition deleteFolder ::
  "string \<Rightarrow> string \<Rightarrow> LocalStorage \<Rightarrow> (error + unit) \<times> LocalStorage" where
  "deleteFolder folderId now st =
     (let (folders, st1) = loadFolders now st;
          (mappings, st2) = loadApplicationMappings st1
      in case findIndex (\<lambda>f. folder_id f = folderId) folders of
           None \<Rightarrow> (Inr (), st2)
         | Some folderIndex \<Rightarrow>
             (let folder = folders ! folderIndex;
                  (folders1, mappings1) =
                     (case find_folder ''folder_other'' folders of
                        None \<Rightarrow> (folders, mappings)
                      | Some otherFolder \<Rightarrow>
                          (let (otherIds, m) =
                                 reassign_apps (applicationIds folder)
                                   (applicationIds otherFolder) mappings
                           in (update_first (\<lambda>f. folder_id f = ''folder_other'')
                                 (\<lambda>f. f\<lparr>applicationIds := otherIds\<rparr>) folders, m)));
                  folders2 = splice1 folderIndex folders1
              in case saveFolders folders2 st2 of
                   (Inl e, st3) \<Rightarrow> (Inl e, st3)
                 | (Inr u, st3) \<Rightarrow> saveApplicationMappings mappings1 st3))"

subsection \<open>updateFolder and reorderFolders\<close>

record FolderUpdates =
  upd_name :: "string option"
  upd_color :: "string option"
  upd_icon :: "string option"

definition assign_updates :: "FolderUpdates \<Rightarrow> string \<Rightarrow> LaunchmatFolder \<Rightarrow> LaunchmatFolder" where
  "assign_updates updates now f =
     f\<lparr>folder_name := (case upd_name updates of None \<Rightarrow> folder_name f | Some n \<Rightarrow> n),
       color := (case upd_color updates of None \<Rightarrow> color f | Some c \<Rightarrow> c),
       icon := (case upd_icon updates of None \<Rightarrow> icon f | Some i \<Rightarrow> i),
       updatedAt := Some now\<rparr>"

definition updateFolder ::
  "string \<Rightarrow> FolderUpdates \<Rightarrow> string \<Rightarrow> LocalStorage \<Rightarrow> (error + unit) \<times> LocalStorage" where
  "updateFolder folderId updates now st =
     (let (folders, st1) = loadFolders now st
      in case find_folder folderId folders of
           None \<Rightarrow> (Inr (), st1)
         | Some folder \<Rightarrow>
             saveFolders
               (update_first (\<lambda>f. folder_id f = folderId) (assign_updates updates now) folders)
               st1)"

text \<open>
  \<^verbatim>\<open>folderIds.forEach((folderId, index) => ...)\<close>, then the sort by position, which is
  stable (as \<^const>\<open>sort_key\<close> is).
\<close>

fun assign_positions :: "string list \<Rightarrow> nat \<Rightarrow> LaunchmatFolder list \<Rightarrow> LaunchmatFolder list" where
  "assign_positions [] index folders = folders"
| "assign_positions (folderId # folderIds) index folders =
     assign_positions folderIds (Suc index)
       (update_first (\<lambda>f. folder_id f = folderId) (\<lambda>f. f\<lparr>position := int index\<rparr>) folders)"

definition reorderFolders ::
  "string list \<Rightarrow> string \<Rightarrow> LocalStorage \<Rightarrow> (error + unit) \<times> LocalStorage" where
  "reorderFolders folderIds now st =
     (let (folders, st1) = loadFolders now st
      in saveFolders (sort_key position (assign_positions folderIds 0 folders)) st1)"

subsection \<open>exportSettings and importSettings\<close>

text \<open>
  The snapshot is a JSON text. The model keeps what \<^verbatim>\<open>JSON.parse\<close> makes of it: a
  text that does not parse (or parses to \<^verbatim>\<open>null\<close>, on which the first property access
  throws: either way the operation fails before any write), or an object in which each
  of the five keys is present or not (a present key holds a value of its type).
  \<^verbatim>\<open>if (importData.folders)\<close> holds for every array and every object, the empty ones
  too.
\<close>

record ExportData =
  exp_folders :: "LaunchmatFolder list option"
  exp_settings :: "LaunchmatSettings option"
  exp_mappings :: "mappings option"
  exportedAt :: "string option"
  exp_version :: "string option"

datatype snapshot = NotJson | Json ExportData


definition importSettings :: "snapshot \<Rightarrow> LocalStorage \<Rightarrow> (error + unit) \<times> LocalStorage" where
  "importSettings data st =
     (case data of
        NotJson \<Rightarrow> (Inl JsonSyntaxError, st)
      | Json importData \<Rightarrow>
          (case (case exp_folders importData of
                   None \<Rightarrow> (Inr (), st) | Some fs \<Rightarrow> saveFolders fs st) of
             (Inl e, st1) \<Rightarrow> (Inl e, st1)
           | (Inr u, st1) \<Rightarrow>
               (case (case exp_settings importData of
                        None \<Rightarrow> (Inr (), st1) | Some s \<Rightarrow> saveSettings s st1) of
                  (Inl e, st2) \<Rightarrow> (Inl e, st2)
                | (Inr u, st2) \<Rightarrow>
                    (case exp_mappings importData of
                       None \<Rightarrow> (Inr (), st2)
                     | Some m \<Rightarrow> saveApplicationMappings m st2))))"

section \<open>ApplicationScanner\<close>

subsection \<open>generateAppId\<close>

text \<open>
  \<^verbatim>\<open>Buffer.from(appPath).toString('base64').replace(/[/+=]/g, '')\<close>. A path is the
  list of its UTF-8 bytes, which is what \<^verbatim>\<open>Buffer.from\<close> makes of the string. Base64
  (RFC 4648, the standard alphabet, with padding) turns three bytes into four
  characters; the replacement then deletes every \<^verbatim>\<open>/\<close>, \<^verbatim>\<open>+\<close> and \<^verbatim>\<open>=\<close>.
\<close>

definition base64_alphabet :: string where
  "base64_alphabet = ''ABCDEFGHIJKLMNOPQRSTUVWXYZabcdefghijklmnopqrstuvwxyz0123456789+/''"

definition base64_char :: "nat \<Rightarrow> char" where
  "base64_char n = base64_alphabet ! (n mod 64)"

fun base64 :: "string \<Rightarrow> string" where
  "base64 [] = []"
| "base64 [a] =
     (let x = (of_char a :: nat)
      in [base64_char (x div 4), base64_char ((x mod 4) * 16), CHR ''='', CHR ''=''])"
| "base64 [a, b] =
     (let x = (of_char a :: nat); y = (of_char b :: nat)
      in [base64_char (x div 4), base64_char ((x mod 4) * 16 + y div 16),
          base64_char ((y mod 16) * 4), CHR ''=''])"
| "base64 (a # b # c # rest) =
     (let x = (of_char a :: nat); y = (of_char b :: nat); z = (of_char c :: nat)
      in [base64_char (x div 4), base64_char ((x mod 4) * 16 + y div 16),
          base64_char ((y mod 16) * 4 + z div 64), base64_char (z mod 64)] @ base64 rest)"

definition stripped :: "char \<Rightarrow> bool" where
  "stripped ch = (ch = CHR ''/'' \<or> ch = CHR ''+'' \<or> ch = CHR ''='')"

definition generateAppId :: "string \<Rightarrow> string" where
  "generateAppId appPath = filter (\<lambda>ch. \<not> stripped ch) (base64 appPath)"

subsection \<open>The bundle on disk\<close>

text \<open>
  What the scanner reads from the file system: the entries of a directory
  (\<^verbatim>\<open>None\<close>: \<^verbatim>\<open>readdir\<close> rejects), whether a path exists, the descriptor that
  \<^verbatim>\<open>readFile\<close> and \<^verbatim>\<open>plist.parse\<close> make of a file (\<^verbatim>\<open>None\<close>: one of the two
  throws), the modification time (\<^verbatim>\<open>None\<close>: \<^verbatim>\<open>stat\<close> rejects) and the kilobytes that
  \<^verbatim>\<open>du -sk\<close> prints (\<^verbatim>\<open>None\<close>: the command fails).
\<close>

record PlistData =
  CFBundleDisplayName :: "string option"
  CFBundleName :: "string option"
  CFBundleIdentifier :: "string option"
  CFBundleShortVersionString :: "string option"
  CFBundleVersion :: "string option"
  CFBundleIconFile :: "string option"
  LSApplicationCategoryType :: "string option"

record FileSystem =
  readdir :: "string \<Rightarrow> string list option"
  pathExists :: "string \<Rightarrow> bool"
  parse_plist :: "string \<Rightarrow> PlistData option"
  stat_mtime :: "string \<Rightarrow> string option"
  du_sk :: "string \<Rightarrow> int option"

text \<open>\<^verbatim>\<open>a || b\<close> on optional strings: \<^verbatim>\<open>undefined\<close> and the empty string are falsy.\<close>

definition truthy :: "string option \<Rightarrow> bool" where
  "truthy a = (case a of None \<Rightarrow> False | Some s \<Rightarrow> s \<noteq> [])"

definition js_or :: "string option \<Rightarrow> string option \<Rightarrow> string option" where
  "js_or a b = (if truthy a then a else b)"

definition or_default :: "string option \<Rightarrow> string \<Rightarrow> string" where
  "or_default a d = (case a of None \<Rightarrow> d | Some s \<Rightarrow> if s = [] then d else s)"

text \<open>
  \<^verbatim>\<open>path.join\<close> of a normalised path and plain names puts a slash between them;
  \<^verbatim>\<open>path.basename(appPath, '.app')\<close> is the last component without the suffix,
  which stays when it is the whole component.
\<close>

definition path_join :: "string \<Rightarrow> string \<Rightarrow> string" where
  "path_join a b = a @ ''/'' @ b"

definition basename :: "string \<Rightarrow> string \<Rightarrow> string" where
  "basename p ext =
     (let b = rev (takeWhile (\<lambda>ch. ch \<noteq> CHR ''/'') (rev p))
      in if suffix ext b \<and> length ext < length b then take (length b - length ext) b else b)"

fun str_includes :: "string \<Rightarrow> string \<Rightarrow> bool" where
  "str_includes [] kw = (kw = [])"
| "str_includes (ch # s) kw = (prefix kw (ch # s) \<or> str_includes s kw)"

definition createFallbackApplication :: "string \<Rightarrow> string \<Rightarrow> string \<Rightarrow> Application" where
  "createFallbackApplication now appPath appName =
     \<lparr>app_id = generateAppId appPath, app_name = appName,
      bundleIdentifier = ''unknown.'' @ appName, app_path = appPath,
      app_version = None, app_icon = None, category = Some ''Other'',
      lastModified = now, app_size = None\<rparr>"

definition extractIconPath :: "FileSystem \<Rightarrow> string \<Rightarrow> PlistData \<Rightarrow> string option" where
  "extractIconPath fs appPath plistData =
     (case CFBundleIconFile plistData of
        None \<Rightarrow> None
      | Some iconFileName \<Rightarrow>
          if iconFileName = [] then None
          else (let resourcesPath = path_join (path_join appPath ''Contents'') ''Resources'';
                    iconPath = path_join resourcesPath
                      (if suffix ''.icns'' iconFileName then iconFileName
                       else iconFileName @ ''.icns'')
                in if pathExists fs iconPath then Some iconPath else None))"

definition categoryMap :: "(string \<times> string list) list" where
  "categoryMap =
     [(''Productivity'', [''office'', ''document'', ''text'', ''note'', ''task'', ''calendar'']),
      (''Development'', [''xcode'', ''code'', ''terminal'', ''git'', ''developer'']),
      (''Graphics'', [''photo'', ''image'', ''design'', ''sketch'', ''figma'', ''adobe'']),
      (''Entertainment'', [''music'', ''video'', ''media'', ''netflix'', ''spotify'']),
      (''Communication'', [''mail'', ''message'', ''slack'', ''discord'', ''zoom'']),
      (''Utilities'', [''utility'', ''system'', ''clean'', ''monitor'', ''activity'']),
      (''Games'', [''game'']),
      (''Finance'', [''bank'', ''finance'', ''money'', ''budget'']),
      (''Social'', [''social'', ''facebook'', ''twitter'', ''instagram''])]"

definition categorizeApplication :: "PlistData \<Rightarrow> string" where
  "categorizeApplication plistData =
     (let bundleId = (case CFBundleIdentifier plistData of
                        None \<Rightarrow> [] | Some b \<Rightarrow> toLowerCase b);
          category' = or_default (LSApplicationCategoryType plistData) []
      in case List.find (\<lambda>(cat, keywords). list_ex (\<lambda>keyword. str_includes bundleId keyword) keywords)
                categoryMap of
           Some (cat, keywords) \<Rightarrow> cat
         | None \<Rightarrow>
             if str_includes category' ''productivity'' then ''Productivity''
             else if str_includes category' ''graphics'' then ''Graphics''
             else if str_includes category' ''utility'' then ''Utilities''
             else if str_includes category' ''game'' then ''Games''
             else ''Other'')"

definition calculateAppSize :: "FileSystem \<Rightarrow> string \<Rightarrow> int" where
  "calculateAppSize fs appPath =
     (case du_sk fs appPath of None \<Rightarrow> 0 | Some sizeInKB \<Rightarrow> sizeInKB * 1024)"

subsection \<open>parseApplication and the scan of a directory\<close>

text \<open>
  Everything that throws inside \<^verbatim>\<open>parseApplication\<close> lands in its \<^verbatim>\<open>catch\<close>, which
  returns \<^verbatim>\<open>null\<close>.
\<close>

definition parseApplication :: "FileSystem \<Rightarrow> string \<Rightarrow> string \<Rightarrow> Application option" where
  "parseApplication fs now appPath =
     (let appName = basename appPath ''.app'';
          infoPlistPath = path_join (path_join appPath ''Contents'') ''Info.plist''
      in if \<not> pathExists fs infoPlistPath
         then Some (createFallbackApplication now appPath appName)
         else (case parse_plist fs infoPlistPath of
                 None \<Rightarrow> None
               | Some plistData \<Rightarrow>
                   (case stat_mtime fs appPath of
                      None \<Rightarrow> None
                    | Some mtime \<Rightarrow>
                        Some \<lparr>app_id = generateAppId appPath,
                              app_name = or_default (CFBundleDisplayName plistData)
                                           (or_default (CFBundleName plistData) appName),
                              bundleIdentifier = or_default (CFBundleIdentifier plistData)
                                                   (''unknown.'' @ appName),
                              app_path = appPath,
                              app_version = js_or (CFBundleShortVersionString plistData)
                                              (CFBundleVersion plistData),
                              app_icon = extractIconPath fs appPath plistData,
                              category = Some (categorizeApplication plistData),
                              lastModified = mtime,
                              app_size = Some (calculateAppSize fs appPath)\<rparr>)))"

fun scan_entries :: "FileSystem \<Rightarrow> string \<Rightarrow> string \<Rightarrow> string list \<Rightarrow> Application list" where
  "scan_entries fs now directoryPath [] = []"
| "scan_entries fs now directoryPath (entry # entries) =
     (if \<not> suffix ''.app'' entry then scan_entries fs now directoryPath entries
      else (case parseApplication fs now (path_join directoryPath entry) of
              None \<Rightarrow> scan_entries fs now directoryPath entries
            | Some application \<Rightarrow> application # scan_entries fs now directoryPath entries))"

definition scanApplicationsInDirectory ::
  "FileSystem \<Rightarrow> string \<Rightarrow> string \<Rightarrow> Application list" where
  "scanApplicationsInDirectory fs now directoryPath =
     (case readdir fs directoryPath of
        None \<Rightarrow> []
      | Some entries \<Rightarrow> scan_entries fs now directoryPath entries)"

section \<open>Sequences of store operations and the properties of the stored state\<close>

text \<open>
  The operations of the store as data, so that a sequence of calls is a list. Each call
  comes with the time at which it runs. \<^verbatim>\<open>autoCategorizeNewApps\<close> is called as the
  activation sequence calls it, on the folders that \<^verbatim>\<open>loadFolders\<close> has just returned.
\<close>

datatype store_op =
  MoveAppToFolder string "string option" string
| CreateFolder string string string nat
| DeleteFolder string
| AutoCategorizeNewApps "Application list"
| ReorderFolders "string list"

definition apply_op :: "string \<Rightarrow> store_op \<Rightarrow> LocalStorage \<Rightarrow> LocalStorage" where
  "apply_op now op st =
     (case op of
        MoveAppToFolder appId fromFolderId toFolderId \<Rightarrow>
          snd (moveAppToFolder appId fromFolderId toFolderId now st)
      | CreateFolder name' color' icon' now_ms \<Rightarrow>
          snd (createFolder name' color' icon' now_ms now st)
      | DeleteFolder folderId \<Rightarrow> snd (deleteFolder folderId now st)
      | AutoCategorizeNewApps applications \<Rightarrow>
          snd (autoCategorizeNewApps applications (fst (loadFolders now st)) st)
      | ReorderFolders folderIds \<Rightarrow> snd (reorderFolders folderIds now st))"

fun states_after :: "(string \<times> store_op) list \<Rightarrow> LocalStorage \<Rightarrow> LocalStorage list" where
  "states_after [] st = []"
| "states_after ((now, op) # ops) st =
     apply_op now op st # states_after ops (apply_op now op st)"

text \<open>
  A sequence of calls each of which meets a condition \<open>ok\<close> in the state in which it
  runs.
\<close>

fun each_call :: "(string \<Rightarrow> store_op \<Rightarrow> LocalStorage \<Rightarrow> bool)
    \<Rightarrow> (string \<times> store_op) list \<Rightarrow> LocalStorage \<Rightarrow> bool" where
  "each_call ok [] st = True"
| "each_call ok ((now, op) # ops) st =
     (ok now op st \<and> each_call ok ops (apply_op now op st))"

subsection \<open>Exclusive membership\<close>

definition holds_app :: "string \<Rightarrow> LaunchmatFolder \<Rightarrow> bool" where
  "holds_app appId f = (appId \<in> set (applicationIds f))"

definition all_app_ids :: "LaunchmatFolder list \<Rightarrow> string list" where
  "all_app_ids folders = concat (map applicationIds folders)"

text \<open>Every application id that occurs in a folder occurs in at most one folder.\<close>

definition exclusive :: "LaunchmatFolder list \<Rightarrow> bool" where
  "exclusive folders =
     list_all (\<lambda>appId. length (filter (holds_app appId) folders) \<le> 1) (all_app_ids folders)"

definition stored_exclusive :: "LocalStorage \<Rightarrow> bool" where
  "stored_exclusive st =
     (case folders_item st of None \<Rightarrow> True | Some folders \<Rightarrow> exclusive folders)"

text \<open>
  The folder that \<^verbatim>\<open>moveAppToFolder\<close> empties of the application: the first one with
  the id \<^verbatim>\<open>fromFolderId\<close>, when that is neither \<^verbatim>\<open>null\<close> nor empty.
\<close>

definition from_folder :: "string option \<Rightarrow> LaunchmatFolder list \<Rightarrow> LaunchmatFolder option" where
  "from_folder fromFolderId folders =
     (case fromFolderId of
        None \<Rightarrow> None
      | Some fid \<Rightarrow> if fid = [] then None else find_folder fid folders)"

text \<open>
  The call of \<^verbatim>\<open>moveAppToFolder\<close> names the folders rightly: every folder that lists
  the application is the one found for \<^verbatim>\<open>fromFolderId\<close> or the one found for
  \<^verbatim>\<open>toFolderId\<close>; or no folder has the id \<^verbatim>\<open>toFolderId\<close>.
\<close>

definition move_names_source ::
  "string \<Rightarrow> string option \<Rightarrow> string \<Rightarrow> LaunchmatFolder list \<Rightarrow> bool" where
  "move_names_source appId fromFolderId toFolderId folders =
     (find_folder toFolderId folders = None
      \<or> list_all (\<lambda>f. \<not> holds_app appId f
                        \<or> from_folder fromFolderId folders = Some f
                        \<or> find_folder toFolderId folders = Some f) folders)"

text \<open>
  The applications that \<^verbatim>\<open>autoCategorizeNewApps\<close> takes for new (no key in the
  mapping table) have pairwise distinct ids and are in no folder yet.
\<close>

definition new_apps_unfiled :: "Application list \<Rightarrow> LaunchmatFolder list \<Rightarrow> mappings \<Rightarrow> bool" where
  "new_apps_unfiled applications folders mappings =
     (let uncategorizedApps = filter (\<lambda>app. mappings (app_id app) = None) applications
      in distinct (map app_id uncategorizedApps)
         \<and> list_all (\<lambda>app. list_all (\<lambda>f. \<not> holds_app (app_id app) f) folders)
              uncategorizedApps)"

definition keeps_exclusive :: "string \<Rightarrow> store_op \<Rightarrow> LocalStorage \<Rightarrow> bool" where
  "keeps_exclusive now op st =
     (case op of
        MoveAppToFolder appId fromFolderId toFolderId \<Rightarrow>
          move_names_source appId fromFolderId toFolderId (fst (loadFolders now st))
      | AutoCategorizeNewApps applications \<Rightarrow>
          new_apps_unfiled applications (fst (loadFolders now st))
            (fst (loadApplicationMappings st))
      | CreateFolder name' color' icon' now_ms \<Rightarrow> True
      | DeleteFolder folderId \<Rightarrow> True
      | ReorderFolders folderIds \<Rightarrow> True)"

subsection \<open>Dense positions\<close>

text \<open>The positions of the folders are the numbers from 0 to the count less one, each once.\<close>

definition dense :: "LaunchmatFolder list \<Rightarrow> bool" where
  "dense folders = (mset (map position folders) = mset (map int [0..<length folders]))"

definition well_positioned :: "LaunchmatFolder list \<Rightarrow> bool" where
  "well_positioned folders = (distinct (map folder_id folders) \<and> dense folders)"

definition stored_well_positioned :: "LocalStorage \<Rightarrow> bool" where
  "stored_well_positioned st =
     (case folders_item st of None \<Rightarrow> True | Some folders \<Rightarrow> well_positioned folders)"

text \<open>
  What a call has to meet for the positions to stay dense: a created folder gets an id
  that no folder has (the clock has moved on since the last creation), a deleted folder
  is the one in the last position, and a reordering lists every folder id once.
\<close>

definition keeps_dense :: "string \<Rightarrow> store_op \<Rightarrow> LocalStorage \<Rightarrow> bool" where
  "keeps_dense now op st =
     (let folders = fst (loadFolders now st)
      in case op of
           CreateFolder name' color' icon' now_ms \<Rightarrow>
             ''folder_'' @ string_of_nat now_ms \<notin> set (map folder_id folders)
         | DeleteFolder folderId \<Rightarrow>
             (case find_folder folderId folders of
                None \<Rightarrow> True
              | Some folder \<Rightarrow> position folder = int (length folders) - 1)
         | ReorderFolders folderIds \<Rightarrow>
             distinct folderIds \<and> set folderIds = set (map folder_id folders)
         | MoveAppToFolder appId fromFolderId toFolderId \<Rightarrow> True
         | AutoCategorizeNewApps applications \<Rightarrow> True)"

subsection \<open>A backend that rejects nothing, and a small store\<close>


definition example_store :: LocalStorage where
  "example_store =
     empty_store\<lparr>folders_item :=
        Some [\<lparr>folder_id = ''folder_games'', folder_name = ''Games'', color = ''#FF9FF3'',
               icon = ''gamepad'', applicationIds = [''app1''], position = 0,
               createdAt = ''2024-01-01T00:00:00.000Z'', updatedAt = None\<rparr>,
              \<lparr>folder_id = ''folder_other'', folder_name = ''Other'', color = ''#5F27CD'',
               icon = ''grid'', applicationIds = [''app2''], position = 1,
               createdAt = ''2024-01-01T00:00:00.000Z'', updatedAt = None\<rparr>],
        app_mappings_item := Some [''app1'' \<mapsto> ''folder_games'', ''app2'' \<mapsto> ''folder_other'']\<rparr>"

subsection \<open>What a run of autoCategorizeNewApps leaves behind\<close>



text \<open>A backend that rejects every read and every write, holding nothing.\<close>

definition rejecting_store :: LocalStorage where
  "rejecting_store = empty_store\<lparr>getItem_fails := (\<lambda>k. True), setItem_fails := (\<lambda>k. True)\<rparr>"

definition example_app :: Application where
  "example_app =
     \<lparr>app_id = ''app3'', app_name = ''Chess'', bundleIdentifier = ''com.apple.Chess'',
      app_path = ''/Applications/Chess.app'', app_version = None, app_icon = None,
      category = Some ''Games'', lastModified = ''2024-01-01T00:00:00.000Z'',
      app_size = None\<rparr>"

text \<open>
  The store after two moves of one application from the empty store, each with
  \<^verbatim>\<open>null\<close> for \<^verbatim>\<open>fromFolderId\<close>.
\<close>

definition twice_moved_store :: LocalStorage where
  "twice_moved_store =
     snd (moveAppToFolder ''app1'' None ''folder_other'' ''2024-01-02T00:00:00.000Z''
       (snd (moveAppToFolder ''app1'' None ''folder_games'' ''2024-01-01T00:00:00.000Z''
          empty_store)))"

subsection \<open>A small applications directory\<close>

text \<open>
  \<^verbatim>\<open>/Applications\<close> with two bundles and a text file. \<^verbatim>\<open>Broken.app\<close> has a descriptor
  that does not parse, \<^verbatim>\<open>Plain.app\<close> has none.
\<close>

definition example_fs :: FileSystem where
  "example_fs =
     \<lparr>readdir = (\<lambda>d. if d = ''/Applications''
                        then Some [''Broken.app'', ''notes.txt'', ''Plain.app''] else None),
      pathExists = (\<lambda>p. p = ''/Applications/Broken.app/Contents/Info.plist''),
      parse_plist = (\<lambda>p. None),
      stat_mtime = (\<lambda>p. Some ''2023-12-31T00:00:00.000Z''),
      du_sk = (\<lambda>p. Some 2048)\<rparr>"

section \<open>Basic facts about the loads and saves\<close>

lemma loadFolders_eq:
  "loadFolders now st =
     ((if getItem_fails st STORAGE_KEY_FOLDERS then createDefaultFolders now
       else case folders_item st of None \<Rightarrow> createDefaultFolders now | Some fs \<Rightarrow> fs), st)"
  by (simp add: loadFolders_def getItem_folders_def split: option.splits)

lemma loadSettings_eq:
  "loadSettings now st =
     ((if getItem_fails st STORAGE_KEY_SETTINGS then createDefaultSettings now
       else case settings_item st of None \<Rightarrow> createDefaultSettings now | Some s \<Rightarrow> s), st)"
  by (simp add: loadSettings_def getItem_settings_def split: option.splits)

lemma loadApplicationMappings_eq:
  "loadApplicationMappings st =
     ((if getItem_fails st STORAGE_KEY_APP_MAPPINGS then Map.empty
       else case app_mappings_item st of None \<Rightarrow> Map.empty | Some m \<Rightarrow> m), st)"
  by (simp add: loadApplicationMappings_def getItem_app_mappings_def split: option.splits)

lemma saveFolders_eq:
  "saveFolders fs st =
     (if setItem_fails st STORAGE_KEY_FOLDERS
      then (Inl (SetItemRejected STORAGE_KEY_FOLDERS), st)
      else (Inr (), st\<lparr>folders_item := Some fs\<rparr>))"
  by (simp add: saveFolders_def setItem_folders_def)

lemma saveSettings_eq:
  "saveSettings s st =
     (if setItem_fails st STORAGE_KEY_SETTINGS
      then (Inl (SetItemRejected STORAGE_KEY_SETTINGS), st)
      else (Inr (), st\<lparr>settings_item := Some s\<rparr>))"
  by (simp add: saveSettings_def setItem_settings_def)

lemma saveApplicationMappings_eq:
  "saveApplicationMappings m st =
     (if setItem_fails st STORAGE_KEY_APP_MAPPINGS
      then (Inl (SetItemRejected STORAGE_KEY_APP_MAPPINGS), st)
      else (Inr (), st\<lparr>app_mappings_item := Some m\<rparr>))"
  by (simp add: saveApplicationMappings_def setItem_app_mappings_def)

section \<open>The seeded default folders\<close>

text \<open>
  C3, as the spec states it, has \<^verbatim>\<open>loadFolders\<close> persist the default folders it
  returns for an empty store. The code returns them and writes nothing: after
  \<^verbatim>\<open>loadFolders\<close> on the empty store, \<^verbatim>\<open>getItem\<close> on the folder key still finds no
  item.
\<close>

theorem loadFolders_does_not_persist:
  "getItem_folders (snd (loadFolders ''2024-01-01T00:00:00.000Z'' empty_store)) = Inr None"
  by (simp add: loadFolders_eq getItem_folders_def empty_store_def)

text \<open>
  C3, amended: on a store with no item under the folder key, \<^verbatim>\<open>loadFolders\<close> returns
  exactly eight folders, named Productivity, Development, Graphics & Design,
  Entertainment, Utilities, Games, Communication and Other, with eight distinct
  well-known ids, the positions 0 to 7, eight distinct colours of the palette of
  eight and empty \<^verbatim>\<open>applicationIds\<close>; the store is left as it was, with no item under
  the folder key.
\<close>

theorem loadFolders_fresh_store:
  assumes "folders_item st = None"
  shows "(let folders = fst (loadFolders now st) in
          length folders = 8
        \<and> map folder_name folders =
            [''Productivity'', ''Development'', ''Graphics & Design'', ''Entertainment'',
             ''Utilities'', ''Games'', ''Communication'', ''Other'']
        \<and> map folder_id folders =
            [''folder_productivity'', ''folder_development'', ''folder_graphics'',
             ''folder_entertainment'', ''folder_utilities'', ''folder_games'',
             ''folder_communication'', ''folder_other'']
        \<and> distinct (map folder_id folders)
        \<and> map position folders = [0, 1, 2, 3, 4, 5, 6, 7]
        \<and> distinct (map color folders)
        \<and> set (map color folders) \<subseteq> set defaultColors
        \<and> length defaultColors = 8
        \<and> map applicationIds folders = [ [], [], [], [], [], [], [], []])
        \<and> snd (loadFolders now st) = st
        \<and> folders_item (snd (loadFolders now st)) = None"
  using assms
  by (simp add: loadFolders_eq createDefaultFolders_def defaultColors_def)

theorem loadFolders_fresh_store_witness:
  "folders_item empty_store = None
   \<and> map folder_name (fst (loadFolders ''2024-01-01T00:00:00.000Z'' empty_store)) =
       [''Productivity'', ''Development'', ''Graphics & Design'', ''Entertainment'',
        ''Utilities'', ''Games'', ''Communication'', ''Other'']
   \<and> map position (fst (loadFolders ''2024-01-01T00:00:00.000Z'' empty_store)) =
       [0, 1, 2, 3, 4, 5, 6, 7]
   \<and> snd (loadFolders ''2024-01-01T00:00:00.000Z'' empty_store) = empty_store"
proof -
  have h: "folders_item empty_store = None"
    by (simp add: empty_store_def)
  show ?thesis
    using h loadFolders_fresh_store [OF h, of "''2024-01-01T00:00:00.000Z''"]
    by (simp add: Let_def)
qed

section \<open>Export and import\<close>




section \<open>The error policy of the store\<close>

lemma snd_loads:
  "snd (loadFolders now st) = st" "snd (loadSettings now st) = st"
  "snd (loadApplicationMappings st) = st"
  by (simp_all add: loadFolders_eq loadSettings_eq loadApplicationMappings_eq)

lemmas store_unfold = case_prod_beta snd_loads saveFolders_eq saveSettings_eq
  saveApplicationMappings_eq Let_def

lemma moveAppToFolder_rejected:
  "setItem_fails st STORAGE_KEY_FOLDERS \<Longrightarrow>
     moveAppToFolder a fr to now st = (Inl (SetItemRejected STORAGE_KEY_FOLDERS), st)"
  "\<not> setItem_fails st STORAGE_KEY_FOLDERS \<Longrightarrow> setItem_fails st STORAGE_KEY_APP_MAPPINGS \<Longrightarrow>
     fst (moveAppToFolder a fr to now st) = Inl (SetItemRejected STORAGE_KEY_APP_MAPPINGS)"
  by (simp_all add: moveAppToFolder_def store_unfold)

lemma createFolder_rejected:
  "setItem_fails st STORAGE_KEY_FOLDERS \<Longrightarrow>
     createFolder n c i ms now st = (Inl (SetItemRejected STORAGE_KEY_FOLDERS), st)"
  by (simp add: createFolder_def store_unfold)

lemma deleteFolder_rejected:
  "findIndex (\<lambda>f. folder_id f = fid) (fst (loadFolders now st)) \<noteq> None \<Longrightarrow>
   setItem_fails st STORAGE_KEY_FOLDERS \<Longrightarrow>
     deleteFolder fid now st = (Inl (SetItemRejected STORAGE_KEY_FOLDERS), st)"
  "findIndex (\<lambda>f. folder_id f = fid) (fst (loadFolders now st)) \<noteq> None \<Longrightarrow>
   \<not> setItem_fails st STORAGE_KEY_FOLDERS \<Longrightarrow> setItem_fails st STORAGE_KEY_APP_MAPPINGS \<Longrightarrow>
     fst (deleteFolder fid now st) = Inl (SetItemRejected STORAGE_KEY_APP_MAPPINGS)"
  by (auto simp add: deleteFolder_def store_unfold split: option.splits)

lemma updateFolder_rejected:
  "find_folder fid (fst (loadFolders now st)) \<noteq> None \<Longrightarrow>
   setItem_fails st STORAGE_KEY_FOLDERS \<Longrightarrow>
     updateFolder fid upd now st = (Inl (SetItemRejected STORAGE_KEY_FOLDERS), st)"
  by (auto simp add: updateFolder_def store_unfold split: option.splits)

lemma reorderFolders_rejected:
  "setItem_fails st STORAGE_KEY_FOLDERS \<Longrightarrow>
     reorderFolders ids now st = (Inl (SetItemRejected STORAGE_KEY_FOLDERS), st)"
  by (simp add: reorderFolders_def store_unfold)

lemma importSettings_rejected:
  "exp_folders d \<noteq> None \<Longrightarrow> setItem_fails st STORAGE_KEY_FOLDERS \<Longrightarrow>
     importSettings (Json d) st = (Inl (SetItemRejected STORAGE_KEY_FOLDERS), st)"
  "exp_settings d \<noteq> None \<Longrightarrow> \<not> setItem_fails st STORAGE_KEY_FOLDERS \<Longrightarrow>
   setItem_fails st STORAGE_KEY_SETTINGS \<Longrightarrow>
     fst (importSettings (Json d) st) = Inl (SetItemRejected STORAGE_KEY_SETTINGS)"
  "exp_mappings d \<noteq> None \<Longrightarrow> \<not> setItem_fails st STORAGE_KEY_FOLDERS \<Longrightarrow>
   \<not> setItem_fails st STORAGE_KEY_SETTINGS \<Longrightarrow> setItem_fails st STORAGE_KEY_APP_MAPPINGS \<Longrightarrow>
     fst (importSettings (Json d) st) = Inl (SetItemRejected STORAGE_KEY_APP_MAPPINGS)"
  by (auto simp add: importSettings_def saveFolders_eq saveSettings_eq saveApplicationMappings_eq
      split: option.splits)

lemma autoCategorizeNewApps_eq:
  "autoCategorizeNewApps apps fs st =
     (let m = fst (loadApplicationMappings st);
          r = categorize_apps (filter (\<lambda>app. m (app_id app) = None) apps) fs m
      in (fst r,
          if setItem_fails st STORAGE_KEY_APP_MAPPINGS then st
          else if setItem_fails st STORAGE_KEY_FOLDERS then st\<lparr>app_mappings_item := Some (snd r)\<rparr>
          else st\<lparr>app_mappings_item := Some (snd r), folders_item := Some (fst r)\<rparr>))"
  by (simp add: autoCategorizeNewApps_def store_unfold)

lemma autoCategorizeNewApps_swallows:
  "setItem_fails st STORAGE_KEY_APP_MAPPINGS \<Longrightarrow> snd (autoCategorizeNewApps apps fs st) = st"
  by (simp add: autoCategorizeNewApps_eq Let_def)

text \<open>
  C9, amended: a rejected \<^verbatim>\<open>setItem\<close> is raised again by \<^verbatim>\<open>saveFolders\<close>,
  \<^verbatim>\<open>saveSettings\<close> and \<^verbatim>\<open>saveApplicationMappings\<close> and by the mutations that reach
  it: \<^verbatim>\<open>moveAppToFolder\<close>, \<^verbatim>\<open>createFolder\<close>, \<^verbatim>\<open>reorderFolders\<close>, \<^verbatim>\<open>deleteFolder\<close>
  and \<^verbatim>\<open>updateFolder\<close> when the folder exists, \<^verbatim>\<open>importSettings\<close> for the keys of the
  snapshot. \<^verbatim>\<open>autoCategorizeNewApps\<close> catches it and returns its folders, the store
  unchanged. A rejected \<^verbatim>\<open>getItem\<close> is never raised: the loads return the default
  folders, the default settings, the empty mapping table and \<^verbatim>\<open>null\<close>.
\<close>

theorem store_error_policy:
  "(setItem_fails st STORAGE_KEY_FOLDERS \<longrightarrow>
       saveFolders fs st = (Inl (SetItemRejected STORAGE_KEY_FOLDERS), st)
     \<and> fst (moveAppToFolder appId fromFolderId toFolderId now st)
         = Inl (SetItemRejected STORAGE_KEY_FOLDERS)
     \<and> fst (createFolder name' color' icon' now_ms now st)
         = Inl (SetItemRejected STORAGE_KEY_FOLDERS)
     \<and> fst (reorderFolders folderIds now st) = Inl (SetItemRejected STORAGE_KEY_FOLDERS)
     \<and> (findIndex (\<lambda>f. folder_id f = folderId) (fst (loadFolders now st)) \<noteq> None \<longrightarrow>
          fst (deleteFolder folderId now st) = Inl (SetItemRejected STORAGE_KEY_FOLDERS))
     \<and> (find_folder folderId (fst (loadFolders now st)) \<noteq> None \<longrightarrow>
          fst (updateFolder folderId updates now st) = Inl (SetItemRejected STORAGE_KEY_FOLDERS))
     \<and> (exp_folders importData \<noteq> None \<longrightarrow>
          fst (importSettings (Json importData) st) = Inl (SetItemRejected STORAGE_KEY_FOLDERS)))
   \<and> (setItem_fails st STORAGE_KEY_SETTINGS \<longrightarrow>
       saveSettings settings st = (Inl (SetItemRejected STORAGE_KEY_SETTINGS), st)
     \<and> (\<not> setItem_fails st STORAGE_KEY_FOLDERS \<and> exp_settings importData \<noteq> None \<longrightarrow>
          fst (importSettings (Json importData) st) = Inl (SetItemRejected STORAGE_KEY_SETTINGS)))
   \<and> (setItem_fails st STORAGE_KEY_APP_MAPPINGS \<longrightarrow>
       saveApplicationMappings mappings st = (Inl (SetItemRejected STORAGE_KEY_APP_MAPPINGS), st)
     \<and> (\<not> setItem_fails st STORAGE_KEY_FOLDERS \<longrightarrow>
          fst (moveAppToFolder appId fromFolderId toFolderId now st)
            = Inl (SetItemRejected STORAGE_KEY_APP_MAPPINGS))
     \<and> (\<not> setItem_fails st STORAGE_KEY_FOLDERS
          \<and> findIndex (\<lambda>f. folder_id f = folderId) (fst (loadFolders now st)) \<noteq> None \<longrightarrow>
          fst (deleteFolder folderId now st) = Inl (SetItemRejected STORAGE_KEY_APP_MAPPINGS))
     \<and> (\<not> setItem_fails st STORAGE_KEY_FOLDERS \<and> \<not> setItem_fails st STORAGE_KEY_SETTINGS
          \<and> exp_mappings importData \<noteq> None \<longrightarrow>
          fst (importSettings (Json importData) st)
            = Inl (SetItemRejected STORAGE_KEY_APP_MAPPINGS))
     \<and> snd (autoCategorizeNewApps applications existingFolders st) = st)
   \<and> (getItem_fails st STORAGE_KEY_FOLDERS \<longrightarrow>
         loadFolders now st = (createDefaultFolders now, st))
   \<and> (getItem_fails st STORAGE_KEY_SETTINGS \<longrightarrow>
         loadSettings now st = (createDefaultSettings now, st))
   \<and> (getItem_fails st STORAGE_KEY_APP_MAPPINGS \<longrightarrow>
         loadApplicationMappings st = (Map.empty, st))
   \<and> (getItem_fails st STORAGE_KEY_LAST_SCAN \<longrightarrow> getLastScanTime st = (None, st))"
  by (simp add: moveAppToFolder_rejected createFolder_rejected deleteFolder_rejected
      updateFolder_rejected reorderFolders_rejected importSettings_rejected
      autoCategorizeNewApps_swallows saveFolders_eq saveSettings_eq saveApplicationMappings_eq
      loadFolders_eq loadSettings_eq loadApplicationMappings_eq getLastScanTime_def
      getItem_last_scan_def)


lemma toLowerCase_Games: "toLowerCase ''Games'' = ''games''"
  by code_simp

lemma getCategoryForApp_example:
  "getCategoryForApp example_app (createDefaultFolders now) = ''folder_games''"
  by (simp add: getCategoryForApp_def example_app_def toLowerCase_Games
      categoryMapping_def find_folder_def createDefaultFolders_def)

lemma categorize_example:
  "map applicationIds (fst (categorize_apps [example_app] (createDefaultFolders now) m))
     = [ [], [], [], [], [], [''app3''], [], []]"
  by (simp add: getCategoryForApp_def example_app_def toLowerCase_Games categoryMapping_def
      find_folder_def createDefaultFolders_def push_app_def)

text \<open>
  C9, as the spec states it, has every write operation raise a rejected write again. On
  a backend that rejects every \<^verbatim>\<open>setItem\<close>, \<^verbatim>\<open>setLastScanTime\<close> returns normally, and
  so does \<^verbatim>\<open>autoCategorizeNewApps\<close>, with the new application in the folder list it
  returns and nothing stored.
\<close>

theorem write_failure_swallowed:
  "setItem_fails rejecting_store STORAGE_KEY_LAST_SCAN
   \<and> setLastScanTime ''2024-01-01T00:00:00.000Z'' rejecting_store = (Inr (), rejecting_store)
   \<and> setItem_fails rejecting_store STORAGE_KEY_APP_MAPPINGS
   \<and> map applicationIds
         (fst (autoCategorizeNewApps [example_app]
                 (createDefaultFolders ''2024-01-01T00:00:00.000Z'') rejecting_store))
       = [ [], [], [], [], [], [''app3''], [], []]
   \<and> snd (autoCategorizeNewApps [example_app]
             (createDefaultFolders ''2024-01-01T00:00:00.000Z'') rejecting_store)
       = rejecting_store"
proof -
  have h: "setItem_fails rejecting_store STORAGE_KEY_LAST_SCAN"
    "setItem_fails rejecting_store STORAGE_KEY_APP_MAPPINGS"
    "getItem_fails rejecting_store STORAGE_KEY_APP_MAPPINGS"
    by (simp_all add: rejecting_store_def empty_store_def)
  have "fst (loadApplicationMappings rejecting_store) = Map.empty"
    using h by (simp add: loadApplicationMappings_eq)
  then show ?thesis
    using h
    by (simp add: setLastScanTime_def setItem_last_scan_def autoCategorizeNewApps_eq
        categorize_example del: categorize_apps.simps)
qed

theorem store_error_policy_witness:
  "setItem_fails rejecting_store STORAGE_KEY_FOLDERS
   \<and> setItem_fails rejecting_store STORAGE_KEY_SETTINGS
   \<and> setItem_fails rejecting_store STORAGE_KEY_APP_MAPPINGS
   \<and> getItem_fails rejecting_store STORAGE_KEY_FOLDERS
   \<and> getItem_fails rejecting_store STORAGE_KEY_SETTINGS
   \<and> getItem_fails rejecting_store STORAGE_KEY_APP_MAPPINGS
   \<and> getItem_fails rejecting_store STORAGE_KEY_LAST_SCAN
   \<and> fst (createFolder ''Work'' ''#FF6B6B'' ''briefcase'' 1700000000000
            ''2024-01-01T00:00:00.000Z'' rejecting_store)
       = Inl (SetItemRejected STORAGE_KEY_FOLDERS)
   \<and> fst (moveAppToFolder ''app1'' None ''folder_games'' ''2024-01-01T00:00:00.000Z''
            rejecting_store)
       = Inl (SetItemRejected STORAGE_KEY_FOLDERS)
   \<and> saveSettings (createDefaultSettings ''2024-01-01T00:00:00.000Z'') rejecting_store
       = (Inl (SetItemRejected STORAGE_KEY_SETTINGS), rejecting_store)
   \<and> saveApplicationMappings Map.empty rejecting_store
       = (Inl (SetItemRejected STORAGE_KEY_APP_MAPPINGS), rejecting_store)
   \<and> loadFolders ''2024-01-01T00:00:00.000Z'' rejecting_store
       = (createDefaultFolders ''2024-01-01T00:00:00.000Z'', rejecting_store)
   \<and> loadApplicationMappings rejecting_store = (Map.empty, rejecting_store)
   \<and> getLastScanTime rejecting_store = (None, rejecting_store)"
proof -
  have h: "setItem_fails rejecting_store STORAGE_KEY_FOLDERS"
    "setItem_fails rejecting_store STORAGE_KEY_SETTINGS"
    "setItem_fails rejecting_store STORAGE_KEY_APP_MAPPINGS"
    "getItem_fails rejecting_store STORAGE_KEY_FOLDERS"
    "getItem_fails rejecting_store STORAGE_KEY_SETTINGS"
    "getItem_fails rejecting_store STORAGE_KEY_APP_MAPPINGS"
    "getItem_fails rejecting_store STORAGE_KEY_LAST_SCAN"
    by (simp_all add: rejecting_store_def empty_store_def)
  show ?thesis
    using h store_error_policy
      [where st = rejecting_store and now = "''2024-01-01T00:00:00.000Z''"
         and name' = "''Work''" and color' = "''#FF6B6B''" and icon' = "''briefcase''"
         and now_ms = 1700000000000 and appId = "''app1''" and fromFolderId = None
         and toFolderId = "''folder_games''"
         and settings = "createDefaultSettings ''2024-01-01T00:00:00.000Z''"
         and mappings = Map.empty and fs = "[]" and folderIds = "[]" and folderId = "[]"
         and updates = "\<lparr>upd_name = None, upd_color = None, upd_icon = None\<rparr>"
         and importData = "\<lparr>exp_folders = None, exp_settings = None, exp_mappings = None,
               exportedAt = None, exp_version = None\<rparr>"
         and applications = "[]" and existingFolders = "[]"]
    by simp
qed

section \<open>Facts about the list helpers\<close>

lemma length_update_first [simp]: "length (update_first p g xs) = length xs"
  by (induction xs) auto

lemma findIndex_None_iff: "findIndex p xs = None \<longleftrightarrow> (\<forall>x\<in>set xs. \<not> p x)"
  by (induction xs) auto

lemma find_None_findIndex: "List.find p xs = None \<longleftrightarrow> findIndex p xs = None"
  by (induction xs) auto

lemma findIndex_Some:
  "findIndex p xs = Some i \<Longrightarrow>
     i < length xs \<and> p (xs ! i) \<and> (\<forall>j<i. \<not> p (xs ! j)) \<and> List.find p xs = Some (xs ! i)
     \<and> update_first p g xs = xs[i := g (xs ! i)]"
proof (induction xs arbitrary: i)
  case Nil
  then show ?case by simp
next
  case (Cons x xs)
  show ?case
  proof (cases "p x")
    case True
    with Cons.prems show ?thesis by simp
  next
    case False
    with Cons.prems obtain k where k: "findIndex p xs = Some k" "i = Suc k"
      by auto
    from Cons.IH [OF k(1)] False k(2) show ?thesis
      by (auto simp: less_Suc_eq_0_disj)
  qed
qed

lemma findIndex_SomeD:
  "findIndex p xs = Some i \<Longrightarrow>
     i < length xs \<and> p (xs ! i) \<and> (\<forall>j<i. \<not> p (xs ! j)) \<and> List.find p xs = Some (xs ! i)"
  using findIndex_Some [of p xs i id] by simp

lemma update_first_findIndex:
  "findIndex p xs = Some i \<Longrightarrow> update_first p g xs = xs[i := g (xs ! i)]"
  using findIndex_Some [of p xs i g] by simp

lemma update_first_None: "findIndex p xs = None \<Longrightarrow> update_first p g xs = xs"
  by (induction xs) auto

lemma find_Some_findIndex:
  "List.find p xs = Some x \<Longrightarrow> \<exists>i. findIndex p xs = Some i \<and> xs ! i = x"
  by (induction xs) (auto split: if_splits)

lemma reassign_apps_set: "set (fst (reassign_apps appIds otherIds m)) = set otherIds \<union> set appIds"
  by (induction appIds arbitrary: otherIds m) auto

lemma reassign_apps_map:
  "snd (reassign_apps appIds otherIds m) a = (if a \<in> set appIds then Some ''folder_other'' else m a)"
  by (induction appIds arbitrary: otherIds m) auto

lemma reassign_apps_same:
  "set appIds \<subseteq> set otherIds \<Longrightarrow> fst (reassign_apps appIds otherIds m) = otherIds"
  by (induction appIds arbitrary: otherIds m) auto

section \<open>deleteFolder\<close>

text \<open>The folder list and the mapping table that deleteFolder computes, once the folder is found.\<close>

lemma deleteFolder_found:
  assumes "findIndex (\<lambda>f. folder_id f = folderId) (fst (loadFolders now st)) = Some i"
    and "\<not> setItem_fails st STORAGE_KEY_FOLDERS" "\<not> setItem_fails st STORAGE_KEY_APP_MAPPINGS"
  shows "deleteFolder folderId now st =
     (Inr (),
      (case find_folder ''folder_other'' (fst (loadFolders now st)) of
         None \<Rightarrow>
           st\<lparr>folders_item := Some (splice1 i (fst (loadFolders now st))),
              app_mappings_item := Some (fst (loadApplicationMappings st))\<rparr>
       | Some otherFolder \<Rightarrow>
           st\<lparr>folders_item :=
                Some (splice1 i
                  (update_first (\<lambda>f. folder_id f = ''folder_other'')
                     (\<lambda>f. f\<lparr>applicationIds :=
                         fst (reassign_apps (applicationIds (fst (loadFolders now st) ! i))
                               (applicationIds otherFolder)
                               (fst (loadApplicationMappings st)))\<rparr>)
                     (fst (loadFolders now st)))),
              app_mappings_item :=
                Some (snd (reassign_apps (applicationIds (fst (loadFolders now st) ! i))
                             (applicationIds otherFolder)
                             (fst (loadApplicationMappings st))))\<rparr>))"
  using assms by (simp add: deleteFolder_def store_unfold split: option.splits)

lemma deleteFolder_not_found:
  "findIndex (\<lambda>f. folder_id f = folderId) (fst (loadFolders now st)) = None \<Longrightarrow>
     deleteFolder folderId now st = (Inr (), st)"
  by (simp add: deleteFolder_def store_unfold)

lemma map_splice1: "map h (splice1 i xs) = splice1 i (map h xs)"
  by (simp add: splice1_def take_map drop_map)

lemma map_folder_id_update_first:
  "(\<And>f. folder_id (g f) = folder_id f) \<Longrightarrow> map folder_id (update_first p g xs) = map folder_id xs"
  by (induction xs) auto

lemma nth_splice1:
  "k < length xs - 1 \<Longrightarrow> splice1 i xs ! k = (if k < i then xs ! k else xs ! Suc k)"
  by (auto simp: splice1_def nth_append min_def)

lemma length_splice1: "i < length xs \<Longrightarrow> length (splice1 i xs) = length xs - 1"
  by (auto simp: splice1_def)

lemma set_splice1: "set (splice1 i xs) \<subseteq> set xs"
  by (auto simp: splice1_def dest: in_set_takeD in_set_dropD)

lemma in_set_splice1:
  assumes "j < length xs" "j \<noteq> i"
  shows "xs ! j \<in> set (splice1 i xs)"
proof (cases "j < i")
  case True
  then have "take i xs ! j = xs ! j" "j < length (take i xs)"
    using assms by simp_all
  then have "xs ! j \<in> set (take i xs)"
    by (metis nth_mem)
  then show ?thesis by (simp add: splice1_def)
next
  case False
  then have *: "Suc i \<le> j" using assms by simp
  then have "drop (Suc i) xs ! (j - Suc i) = xs ! j" "j - Suc i < length (drop (Suc i) xs)"
    using assms by simp_all
  then have "xs ! j \<in> set (drop (Suc i) xs)"
    by (metis nth_mem)
  then show ?thesis by (simp add: splice1_def)
qed

text \<open>In a list from which an element before the first match is not removed, the first match stays.\<close>

lemma find_splice1_other:
  assumes "findIndex p xs = Some k" "i \<noteq> k"
  shows "List.find p (splice1 i xs) = Some (xs ! k)"
  using assms
proof (induction xs arbitrary: i k)
  case Nil
  then show ?case by simp
next
  case (Cons x xs)
  show ?case
  proof (cases "p x")
    case True
    with Cons.prems have "k = 0" by simp
    with Cons.prems True show ?thesis
      by (cases i) (auto simp: splice1_def)
  next
    case False
    with Cons.prems obtain k' where k': "findIndex p xs = Some k'" "k = Suc k'"
      by auto
    show ?thesis
    proof (cases i)
      case 0
      with k' findIndex_Some [OF k'(1)] show ?thesis
        by (simp add: splice1_def)
    next
      case (Suc i')
      with Cons.prems k' have "i' \<noteq> k'" by simp
      from Cons.IH [OF k'(1) this] Suc False k' show ?thesis
        by (simp add: splice1_def)
    qed
  qed
qed


lemma findIndex_update_first:
  "(\<And>x. p (g x) = p x) \<Longrightarrow> findIndex p (update_first q g xs) = findIndex p xs"
  by (induction xs) auto

text \<open>
  C6, amended: when no folder has the id, \<^verbatim>\<open>deleteFolder\<close> succeeds and leaves the store
  as it is. When a folder has the id, the id is not \<^verbatim>\<open>"folder_other"\<close>, a folder
  \<^verbatim>\<open>folder_other\<close> exists and the two writes are not rejected, the call succeeds, the
  stored folder list is the old one without the record of the (first) folder with that
  id, \<^verbatim>\<open>folder_other\<close> lists its own applications and those of the deleted folder, and
  the mapping table sends each application of the deleted folder to
  \<^verbatim>\<open>"folder_other"\<close>.
\<close>

theorem deleteFolder_reassigns:
  "(let folders = fst (loadFolders now st); st' = snd (deleteFolder folderId now st) in
     (findIndex (\<lambda>f. folder_id f = folderId) folders = None \<longrightarrow>
        deleteFolder folderId now st = (Inr (), st))
   \<and> (\<forall>i otherFolder.
         findIndex (\<lambda>f. folder_id f = folderId) folders = Some i
         \<and> find_folder ''folder_other'' folders = Some otherFolder
         \<and> folderId \<noteq> ''folder_other''
         \<and> \<not> setItem_fails st STORAGE_KEY_FOLDERS
         \<and> \<not> setItem_fails st STORAGE_KEY_APP_MAPPINGS \<longrightarrow>
           fst (deleteFolder folderId now st) = Inr ()
         \<and> (\<exists>folders' otherFolder'.
               folders_item st' = Some folders'
             \<and> map folder_id folders' = splice1 i (map folder_id folders)
             \<and> find_folder ''folder_other'' folders' = Some otherFolder'
             \<and> set (applicationIds otherFolder') =
                 set (applicationIds otherFolder) \<union> set (applicationIds (folders ! i)))
         \<and> (\<exists>mappings'.
               app_mappings_item st' = Some mappings'
             \<and> (\<forall>appId \<in> set (applicationIds (folders ! i)).
                   mappings' appId = Some ''folder_other''))))"
proof -
  define folders where "folders = fst (loadFolders now st)"
  have noop: "findIndex (\<lambda>f. folder_id f = folderId) folders = None \<Longrightarrow>
        deleteFolder folderId now st = (Inr (), st)"
    unfolding folders_def by (rule deleteFolder_not_found)
  have main: "fst (deleteFolder folderId now st) = Inr ()
         \<and> (\<exists>folders' otherFolder'.
               folders_item (snd (deleteFolder folderId now st)) = Some folders'
             \<and> map folder_id folders' = splice1 i (map folder_id folders)
             \<and> find_folder ''folder_other'' folders' = Some otherFolder'
             \<and> set (applicationIds otherFolder') =
                 set (applicationIds otherFolder) \<union> set (applicationIds (folders ! i)))
         \<and> (\<exists>mappings'.
               app_mappings_item (snd (deleteFolder folderId now st)) = Some mappings'
             \<and> (\<forall>appId \<in> set (applicationIds (folders ! i)).
                   mappings' appId = Some ''folder_other''))"
    if i: "findIndex (\<lambda>f. folder_id f = folderId) folders = Some i"
      and o: "find_folder ''folder_other'' folders = Some otherFolder"
      and ne: "folderId \<noteq> ''folder_other''"
      and wr: "\<not> setItem_fails st STORAGE_KEY_FOLDERS" "\<not> setItem_fails st STORAGE_KEY_APP_MAPPINGS"
    for i otherFolder
  proof -
    let ?p = "\<lambda>f. folder_id f = ''folder_other''"
    let ?r = "reassign_apps (applicationIds (folders ! i)) (applicationIds otherFolder)
                (fst (loadApplicationMappings st))"
    let ?g = "\<lambda>f. f\<lparr>applicationIds := fst ?r\<rparr>"
    let ?fs1 = "update_first ?p ?g folders"
    from o obtain k where k: "findIndex ?p folders = Some k" "folders ! k = otherFolder"
      unfolding find_folder_def by (blast dest: find_Some_findIndex)
    have ik: "i \<noteq> k"
      using findIndex_SomeD [OF i] findIndex_SomeD [OF k(1)] ne by auto
    have k1: "findIndex ?p ?fs1 = Some k"
      using k(1) by (simp add: findIndex_update_first)
    have fs1k: "?fs1 ! k = ?g otherFolder"
      using update_first_findIndex [OF k(1), of ?g] findIndex_SomeD [OF k(1)] k(2) by simp
    have eq: "deleteFolder folderId now st =
        (Inr (), st\<lparr>folders_item := Some (splice1 i ?fs1), app_mappings_item := Some (snd ?r)\<rparr>)"
      using deleteFolder_found [OF i [unfolded folders_def] wr] o
      by (simp add: folders_def)
    have ids: "map folder_id (splice1 i ?fs1) = splice1 i (map folder_id folders)"
      by (simp add: map_splice1 map_folder_id_update_first)
    have fnd: "find_folder ''folder_other'' (splice1 i ?fs1) = Some (?g otherFolder)"
      unfolding find_folder_def using find_splice1_other [OF k1 ik] fs1k by simp
    have apps: "set (applicationIds (?g otherFolder)) =
        set (applicationIds otherFolder) \<union> set (applicationIds (folders ! i))"
      by (simp add: reassign_apps_set)
    have maps: "\<forall>appId \<in> set (applicationIds (folders ! i)). snd ?r appId = Some ''folder_other''"
      by (simp add: reassign_apps_map)
    show ?thesis
      using ids fnd apps maps by (simp add: eq)
  qed
  show ?thesis
    unfolding Let_def folders_def [symmetric]
    using noop main by blast
qed


lemmas store_eval = deleteFolder_def moveAppToFolder_def createFolder_def reorderFolders_def
  store_unfold loadFolders_eq loadApplicationMappings_eq find_folder_def splice1_def
  example_store_def empty_store_def

text \<open>
  C6, as the spec states it, holds for every state with a folder of that id. It fails
  when the folder is the catch-all folder itself (\<^verbatim>\<open>app2\<close> is then in the list of no
  folder \<^verbatim>\<open>folder_other\<close>, as none is left), and it fails when there is no catch-all
  folder (deleting \<^verbatim>\<open>folder_games\<close> next drops \<^verbatim>\<open>app1\<close> from every folder and
  leaves its mapping at \<^verbatim>\<open>"folder_games"\<close>).
\<close>

theorem deleteFolder_without_catch_all:
  "findIndex (\<lambda>f. folder_id f = ''folder_other'')
       (fst (loadFolders ''2024-02-02T00:00:00.000Z'' example_store)) = Some 1
   \<and> applicationIds (fst (loadFolders ''2024-02-02T00:00:00.000Z'' example_store) ! 1) = [''app2'']
   \<and> fst (deleteFolder ''folder_other'' ''2024-02-02T00:00:00.000Z'' example_store) = Inr ()
   \<and> map folder_id (fst (loadFolders ''2024-02-02T00:00:00.000Z''
         (snd (deleteFolder ''folder_other'' ''2024-02-02T00:00:00.000Z'' example_store))))
       = [''folder_games'']
   \<and> map applicationIds (fst (loadFolders ''2024-02-02T00:00:00.000Z''
         (snd (deleteFolder ''folder_other'' ''2024-02-02T00:00:00.000Z'' example_store))))
       = [ [''app1'']]
   \<and> fst (deleteFolder ''folder_games'' ''2024-02-03T00:00:00.000Z''
         (snd (deleteFolder ''folder_other'' ''2024-02-02T00:00:00.000Z'' example_store)))
       = Inr ()
   \<and> fst (loadFolders ''2024-02-03T00:00:00.000Z''
         (snd (deleteFolder ''folder_games'' ''2024-02-03T00:00:00.000Z''
           (snd (deleteFolder ''folder_other'' ''2024-02-02T00:00:00.000Z'' example_store)))))
       = []
   \<and> fst (loadApplicationMappings
         (snd (deleteFolder ''folder_games'' ''2024-02-03T00:00:00.000Z''
           (snd (deleteFolder ''folder_other'' ''2024-02-02T00:00:00.000Z'' example_store)))))
         ''app1'' = Some ''folder_games''"
  by (simp add: store_eval)

theorem deleteFolder_reassigns_witness:
  "findIndex (\<lambda>f. folder_id f = ''folder_games'')
       (fst (loadFolders ''2024-02-02T00:00:00.000Z'' example_store)) = Some 0
   \<and> map folder_id (fst (loadFolders ''2024-02-02T00:00:00.000Z'' example_store))
       = [''folder_games'', ''folder_other'']
   \<and> applicationIds (fst (loadFolders ''2024-02-02T00:00:00.000Z'' example_store) ! 0) = [''app1'']
   \<and> fst (deleteFolder ''folder_games'' ''2024-02-02T00:00:00.000Z'' example_store) = Inr ()
   \<and> map folder_id (fst (loadFolders ''2024-02-02T00:00:00.000Z''
         (snd (deleteFolder ''folder_games'' ''2024-02-02T00:00:00.000Z'' example_store))))
       = [''folder_other'']
   \<and> map applicationIds (fst (loadFolders ''2024-02-02T00:00:00.000Z''
         (snd (deleteFolder ''folder_games'' ''2024-02-02T00:00:00.000Z'' example_store))))
       = [ [''app2'', ''app1'']]
   \<and> fst (loadApplicationMappings
         (snd (deleteFolder ''folder_games'' ''2024-02-02T00:00:00.000Z'' example_store)))
         ''app1'' = Some ''folder_other''
   \<and> deleteFolder ''folder_music'' ''2024-02-02T00:00:00.000Z'' example_store
       = (Inr (), example_store)"
  using deleteFolder_reassigns
      [where folderId = "''folder_games''" and now = "''2024-02-02T00:00:00.000Z''"
         and st = example_store]
    deleteFolder_reassigns
      [where folderId = "''folder_music''" and now = "''2024-02-02T00:00:00.000Z''"
         and st = example_store]
  by (simp add: store_eval)

section \<open>Exclusive membership\<close>

lemma filter_le1_nth:
  "length (filter P xs) \<le> 1 \<longleftrightarrow>
     (\<forall>i<length xs. \<forall>j<length xs. P (xs ! i) \<and> P (xs ! j) \<longrightarrow> i = j)"
proof (induction xs)
  case Nil
  then show ?case by simp
next
  case (Cons x xs)
  show ?case
  proof (cases "P x")
    case True
    have "length (filter P (x # xs)) \<le> 1 \<longleftrightarrow> (\<forall>y\<in>set xs. \<not> P y)"
      using True by (simp add: filter_empty_conv)
    also have "\<dots> \<longleftrightarrow> (\<forall>i<length (x # xs). \<forall>j<length (x # xs).
        P ((x # xs) ! i) \<and> P ((x # xs) ! j) \<longrightarrow> i = j)"
    proof
      assume a: "\<forall>y\<in>set xs. \<not> P y"
      show "\<forall>i<length (x # xs). \<forall>j<length (x # xs).
        P ((x # xs) ! i) \<and> P ((x # xs) ! j) \<longrightarrow> i = j"
      proof (intro allI impI)
        fix i j
        assume "i < length (x # xs)" "j < length (x # xs)"
          "P ((x # xs) ! i) \<and> P ((x # xs) ! j)"
        with a show "i = j"
          by (cases i; cases j) auto
      qed
    next
      assume b: "\<forall>i<length (x # xs). \<forall>j<length (x # xs).
        P ((x # xs) ! i) \<and> P ((x # xs) ! j) \<longrightarrow> i = j"
      show "\<forall>y\<in>set xs. \<not> P y"
      proof
        fix y assume "y \<in> set xs"
        then obtain k where k: "k < length xs" "xs ! k = y"
          by (auto simp: in_set_conv_nth)
        show "\<not> P y"
        proof
          assume "P y"
          with b [rule_format, of 0 "Suc k"] True k show False by simp
        qed
      qed
    qed
    finally show ?thesis .
  next
    case False
    have "(\<forall>i<length (x # xs). \<forall>j<length (x # xs).
        P ((x # xs) ! i) \<and> P ((x # xs) ! j) \<longrightarrow> i = j)
      \<longleftrightarrow> (\<forall>i<length xs. \<forall>j<length xs. P (xs ! i) \<and> P (xs ! j) \<longrightarrow> i = j)"
    proof
      assume b: "\<forall>i<length (x # xs). \<forall>j<length (x # xs).
        P ((x # xs) ! i) \<and> P ((x # xs) ! j) \<longrightarrow> i = j"
      show "\<forall>i<length xs. \<forall>j<length xs. P (xs ! i) \<and> P (xs ! j) \<longrightarrow> i = j"
      proof (intro allI impI)
        fix i j assume "i < length xs" "j < length xs" "P (xs ! i) \<and> P (xs ! j)"
        with b [rule_format, of "Suc i" "Suc j"] show "i = j" by simp
      qed
    next
      assume a: "\<forall>i<length xs. \<forall>j<length xs. P (xs ! i) \<and> P (xs ! j) \<longrightarrow> i = j"
      show "\<forall>i<length (x # xs). \<forall>j<length (x # xs).
        P ((x # xs) ! i) \<and> P ((x # xs) ! j) \<longrightarrow> i = j"
      proof (intro allI impI)
        fix i j
        assume "i < length (x # xs)" "j < length (x # xs)"
          "P ((x # xs) ! i) \<and> P ((x # xs) ! j)"
        with a False show "i = j"
          by (cases i; cases j) auto
      qed
    qed
    with Cons.IH False show ?thesis by simp
  qed
qed

lemma exclusive_iff:
  "exclusive folders \<longleftrightarrow> (\<forall>appId. length (filter (holds_app appId) folders) \<le> 1)"
proof
  assume e: "exclusive folders"
  show "\<forall>appId. length (filter (holds_app appId) folders) \<le> 1"
  proof
    fix appId
    show "length (filter (holds_app appId) folders) \<le> 1"
    proof (cases "appId \<in> set (all_app_ids folders)")
      case True
      with e show ?thesis by (simp add: exclusive_def list_all_iff)
    next
      case False
      then have "filter (holds_app appId) folders = []"
        by (auto simp: all_app_ids_def holds_app_def filter_empty_conv)
      then show ?thesis by simp
    qed
  qed
next
  assume "\<forall>appId. length (filter (holds_app appId) folders) \<le> 1"
  then show "exclusive folders" by (simp add: exclusive_def list_all_iff)
qed

lemma exclusive_nth:
  "exclusive folders \<longleftrightarrow>
     (\<forall>appId. \<forall>i<length folders. \<forall>j<length folders.
        holds_app appId (folders ! i) \<and> holds_app appId (folders ! j) \<longrightarrow> i = j)"
  unfolding exclusive_iff filter_le1_nth by blast

lemma in_set_splice1D:
  assumes "x \<in> set (splice1 i xs)"
  shows "\<exists>j<length xs. j \<noteq> i \<and> xs ! j = x"
proof -
  from assms have "x \<in> set (take i xs) \<or> x \<in> set (drop (Suc i) xs)"
    by (simp add: splice1_def)
  then show ?thesis
  proof
    assume "x \<in> set (take i xs)"
    then obtain k where "k < length (take i xs)" "take i xs ! k = x"
      by (auto simp: in_set_conv_nth)
    then have "k < length xs \<and> k \<noteq> i \<and> xs ! k = x" by simp
    then show ?thesis by blast
  next
    assume "x \<in> set (drop (Suc i) xs)"
    then obtain k where "k < length (drop (Suc i) xs)" "drop (Suc i) xs ! k = x"
      by (auto simp: in_set_conv_nth)
    then have "Suc i + k < length xs \<and> Suc i + k \<noteq> i \<and> xs ! (Suc i + k) = x" by auto
    then show ?thesis by blast
  qed
qed

section \<open>Deleting the catch-all folder\<close>

lemma twice_moved_store_eq:
  "twice_moved_store =
     empty_store\<lparr>folders_item := Some ((createDefaultFolders ''2024-01-01T00:00:00.000Z'')
         [5 := (createDefaultFolders ''2024-01-01T00:00:00.000Z'' ! 5)\<lparr>applicationIds := [''app1'']\<rparr>,
          7 := (createDefaultFolders ''2024-01-01T00:00:00.000Z'' ! 7)\<lparr>applicationIds := [''app1'']\<rparr>]),
       app_mappings_item := Some [''app1'' \<mapsto> ''folder_other'']\<rparr>"
  by (simp add: twice_moved_store_def moveAppToFolder_def store_unfold loadFolders_eq
      loadApplicationMappings_eq empty_store_def createDefaultFolders_def add_app_def push_app_def)

text \<open>
  C10, as stated, has every application of the deleted catch-all folder in no folder
  afterwards. After two moves of \<^verbatim>\<open>app1\<close> with \<^verbatim>\<open>null\<close> for \<^verbatim>\<open>fromFolderId\<close> the
  application is listed by \<^verbatim>\<open>folder_games\<close> and by \<^verbatim>\<open>folder_other\<close>; deleting
  \<^verbatim>\<open>folder_other\<close> leaves it in \<^verbatim>\<open>folder_games\<close>.
\<close>

theorem deleteFolder_catch_all_app_remains:
  "map folder_id (fst (loadFolders ''2024-01-03T00:00:00.000Z'' twice_moved_store))
     = [''folder_productivity'', ''folder_development'', ''folder_graphics'',
        ''folder_entertainment'', ''folder_utilities'', ''folder_games'',
        ''folder_communication'', ''folder_other'']
   \<and> map applicationIds (fst (loadFolders ''2024-01-03T00:00:00.000Z'' twice_moved_store))
     = [ [], [], [], [], [], [''app1''], [], [''app1'']]
   \<and> fst (deleteFolder ''folder_other'' ''2024-01-03T00:00:00.000Z'' twice_moved_store) = Inr ()
   \<and> map folder_id (fst (loadFolders ''2024-01-04T00:00:00.000Z''
        (snd (deleteFolder ''folder_other'' ''2024-01-03T00:00:00.000Z'' twice_moved_store))))
     = [''folder_productivity'', ''folder_development'', ''folder_graphics'',
        ''folder_entertainment'', ''folder_utilities'', ''folder_games'',
        ''folder_communication'']
   \<and> map applicationIds (fst (loadFolders ''2024-01-04T00:00:00.000Z''
        (snd (deleteFolder ''folder_other'' ''2024-01-03T00:00:00.000Z'' twice_moved_store))))
     = [ [], [], [], [], [], [''app1''], []]"
  by (simp add: twice_moved_store_eq store_eval createDefaultFolders_def)


text \<open>
  C10, amended: in a state with a catch-all folder, in which the folder ids are distinct
  and every application is in at most one folder, \<^verbatim>\<open>deleteFolder("folder_other")\<close>
  (its writes not rejected) succeeds and stores the old folder list without the record of
  the catch-all folder; no folder has the id \<^verbatim>\<open>"folder_other"\<close> afterwards, and every
  application that the catch-all folder listed is mapped to \<^verbatim>\<open>"folder_other"\<close> and is
  in no folder.
\<close>

theorem deleteFolder_catch_all:
  assumes o: "find_folder ''folder_other'' (fst (loadFolders now st)) = Some otherFolder"
    and ids: "distinct (map folder_id (fst (loadFolders now st)))"
    and ex: "exclusive (fst (loadFolders now st))"
    and wr: "\<not> setItem_fails st STORAGE_KEY_FOLDERS" "\<not> setItem_fails st STORAGE_KEY_APP_MAPPINGS"
  shows "fst (deleteFolder ''folder_other'' now st) = Inr ()
     \<and> (\<exists>i folders' mappings'.
           findIndex (\<lambda>f. folder_id f = ''folder_other'') (fst (loadFolders now st)) = Some i
         \<and> folders_item (snd (deleteFolder ''folder_other'' now st)) = Some folders'
         \<and> app_mappings_item (snd (deleteFolder ''folder_other'' now st)) = Some mappings'
         \<and> folders' = splice1 i (fst (loadFolders now st))
         \<and> find_folder ''folder_other'' folders' = None
         \<and> (\<forall>appId \<in> set (applicationIds otherFolder).
               mappings' appId = Some ''folder_other''
             \<and> list_all (\<lambda>f. \<not> holds_app appId f) folders'))"
proof -
  define folders where "folders = fst (loadFolders now st)"
  let ?p = "\<lambda>f. folder_id f = ''folder_other''"
  let ?r = "reassign_apps (applicationIds otherFolder) (applicationIds otherFolder)
              (fst (loadApplicationMappings st))"
  from o obtain i where i: "findIndex ?p folders = Some i" "folders ! i = otherFolder"
    unfolding find_folder_def folders_def by (blast dest: find_Some_findIndex)
  note fi = findIndex_SomeD [OF i(1)]
  have same: "fst ?r = applicationIds otherFolder"
    by (simp add: reassign_apps_same)
  have upd: "update_first ?p (\<lambda>f. f\<lparr>applicationIds := fst ?r\<rparr>) folders = folders"
    using update_first_findIndex [OF i(1), of "\<lambda>f. f\<lparr>applicationIds := fst ?r\<rparr>"] fi i(2) same
    by (simp add: list_update_same_conv)
  have eq: "deleteFolder ''folder_other'' now st =
      (Inr (), st\<lparr>folders_item := Some (splice1 i folders), app_mappings_item := Some (snd ?r)\<rparr>)"
    using deleteFolder_found [OF i(1) [unfolded folders_def] wr] o i(2) upd
    by (simp add: folders_def)
  have rest: "folder_id f \<noteq> ''folder_other'' \<and> (\<forall>appId \<in> set (applicationIds otherFolder). \<not> holds_app appId f)"
    if "f \<in> set (splice1 i folders)" for f
  proof -
    from in_set_splice1D [OF that] obtain j where j: "j < length folders" "j \<noteq> i" "folders ! j = f"
      by blast
    have "map folder_id folders ! j \<noteq> map folder_id folders ! i"
      using ids j(1,2) fi unfolding folders_def [symmetric]
      by (simp add: nth_eq_iff_index_eq del: nth_map)
    then have "folder_id (folders ! j) \<noteq> folder_id (folders ! i)"
      using j(1) fi by simp
    moreover have "\<not> holds_app appId (folders ! j)" if "appId \<in> set (applicationIds otherFolder)" for appId
      using ex [unfolded folders_def [symmetric] exclusive_nth, rule_format, of i j appId]
        j(1,2) fi i(2) that
      by (auto simp: holds_app_def)
    ultimately show ?thesis using fi j(3) by auto
  qed
  have none: "find_folder ''folder_other'' (splice1 i folders) = None"
    unfolding find_folder_def using rest by (simp add: find_None_iff)
  have maps: "\<forall>appId \<in> set (applicationIds otherFolder). snd ?r appId = Some ''folder_other''"
    by (simp add: reassign_apps_map)
  show ?thesis
    unfolding folders_def [symmetric]
    using i(1) none maps rest by (simp add: eq list_all_iff)
qed

theorem deleteFolder_catch_all_witness:
  "find_folder ''folder_other'' (fst (loadFolders ''2024-02-02T00:00:00.000Z'' example_store))
     = Some (fst (loadFolders ''2024-02-02T00:00:00.000Z'' example_store) ! 1)
   \<and> distinct (map folder_id (fst (loadFolders ''2024-02-02T00:00:00.000Z'' example_store)))
   \<and> exclusive (fst (loadFolders ''2024-02-02T00:00:00.000Z'' example_store))
   \<and> applicationIds (fst (loadFolders ''2024-02-02T00:00:00.000Z'' example_store) ! 1) = [''app2'']
   \<and> fst (deleteFolder ''folder_other'' ''2024-02-02T00:00:00.000Z'' example_store) = Inr ()
   \<and> map folder_id (fst (loadFolders ''2024-02-03T00:00:00.000Z''
        (snd (deleteFolder ''folder_other'' ''2024-02-02T00:00:00.000Z'' example_store))))
      = [''folder_games'']
   \<and> map applicationIds (fst (loadFolders ''2024-02-03T00:00:00.000Z''
        (snd (deleteFolder ''folder_other'' ''2024-02-02T00:00:00.000Z'' example_store))))
      = [ [''app1'']]
   \<and> fst (loadApplicationMappings
        (snd (deleteFolder ''folder_other'' ''2024-02-02T00:00:00.000Z'' example_store)))
        ''app2'' = Some ''folder_other''"
proof -
  let ?fs = "fst (loadFolders ''2024-02-02T00:00:00.000Z'' example_store)"
  have h: "find_folder ''folder_other'' ?fs = Some (?fs ! 1)"
    "distinct (map folder_id ?fs)" "exclusive ?fs"
    "\<not> setItem_fails example_store STORAGE_KEY_FOLDERS"
    "\<not> setItem_fails example_store STORAGE_KEY_APP_MAPPINGS"
    by (simp_all add: store_eval exclusive_def all_app_ids_def holds_app_def)
  show ?thesis
    using h(1-3) deleteFolder_catch_all [OF h]
    by (simp add: store_eval)
qed

section \<open>autoCategorizeNewApps run twice\<close>


















section \<open>Exclusive membership along sequences of operations\<close>

lemma nth_update_first:
  "i < length xs \<Longrightarrow>
     update_first p g xs ! i = (if findIndex p xs = Some i then g (xs ! i) else xs ! i)"
proof (cases "findIndex p xs")
  case None
  then show ?thesis by (simp add: update_first_None)
next
  case (Some k)
  assume "i < length xs"
  with Some findIndex_SomeD [OF Some] show ?thesis
    by (simp add: update_first_findIndex nth_list_update)
qed

lemma holds_app_remove_app:
  "holds_app b (remove_app a f) \<longleftrightarrow> holds_app b f \<and> b \<noteq> a"
  by (auto simp: holds_app_def remove_app_def)

lemma holds_app_add_app:
  "holds_app b (add_app a f) \<longleftrightarrow> holds_app b f \<or> b = a"
  by (auto simp: holds_app_def add_app_def push_app_def)

lemma holds_app_push_app:
  "holds_app b (push_app a f) \<longleftrightarrow> holds_app b f \<or> b = a"
  by (auto simp: holds_app_def push_app_def)

lemma folder_id_app_updates [simp]:
  "folder_id (remove_app a f) = folder_id f" "folder_id (add_app a f) = folder_id f"
  "folder_id (push_app a f) = folder_id f"
  by (simp_all add: remove_app_def add_app_def push_app_def)

text \<open>The two steps of moveAppToFolder on the folder list.\<close>

lemma move_exclusive:
  assumes ex: "exclusive folders"
    and ok: "move_names_source appId fromFolderId toFolderId folders"
  defines "folders1 \<equiv> (case fromFolderId of
                        None \<Rightarrow> folders
                      | Some fid \<Rightarrow>
                          if fid = [] then folders
                          else update_first (\<lambda>f. folder_id f = fid) (remove_app appId) folders)"
  shows "exclusive (update_first (\<lambda>f. folder_id f = toFolderId) (add_app appId) folders1)"
proof -
  let ?pT = "\<lambda>f. folder_id f = toFolderId"
  let ?folders2 = "update_first ?pT (add_app appId) folders1"
  have len1: "length folders1 = length folders"
    by (simp add: folders1_def split: option.splits)
  have idxT: "findIndex ?pT folders1 = findIndex ?pT folders"
    by (simp add: folders1_def findIndex_update_first split: option.splits)
  have h1: "holds_app b (folders1 ! i) \<Longrightarrow> holds_app b (folders ! i)" if "i < length folders" for b i
    using that
    by (auto simp: folders1_def nth_update_first holds_app_remove_app split: option.splits if_splits)
  have h1': "holds_app b (folders1 ! i) \<longleftrightarrow> holds_app b (folders ! i)"
    if "i < length folders" "b \<noteq> appId" for b i
    using that
    by (auto simp: folders1_def nth_update_first holds_app_remove_app split: option.splits)
  have h2: "holds_app b (?folders2 ! i) \<longleftrightarrow> holds_app b (folders ! i)"
    if "i < length folders" "b \<noteq> appId" for b i
    using that h1' [OF that] len1
    by (simp add: nth_update_first holds_app_add_app)
  have exn: "\<And>b i j. i < length folders \<Longrightarrow> j < length folders \<Longrightarrow>
      holds_app b (folders ! i) \<Longrightarrow> holds_app b (folders ! j) \<Longrightarrow> i = j"
    using ex unfolding exclusive_nth by blast
  have a_case: "i = j"
    if ij: "i < length folders" "j < length folders"
      and hi: "holds_app appId (?folders2 ! i)" and hj: "holds_app appId (?folders2 ! j)" for i j
  proof (cases "findIndex ?pT folders")
    case None
    then have "?folders2 = folders1"
      using idxT by (simp add: update_first_None)
    with hi hj h1 ij exn show ?thesis by metis
  next
    case (Some t)
    note tD = findIndex_SomeD [OF Some]
    have tf: "find_folder toFolderId folders = Some (folders ! t)"
      using tD by (simp add: find_folder_def)
    from ok tf have src: "\<And>f. f \<in> set folders \<Longrightarrow> holds_app appId f \<Longrightarrow>
        from_folder fromFolderId folders = Some f \<or> f = folders ! t"
      by (auto simp: move_names_source_def list_all_iff)
    have only_t: "k = t" if k: "k < length folders" and hk: "holds_app appId (?folders2 ! k)" for k
    proof (rule ccontr)
      assume kt: "k \<noteq> t"
      then have hk1: "holds_app appId (folders1 ! k)"
        using hk k len1 idxT Some by (simp add: nth_update_first)
      then have hk0: "holds_app appId (folders ! k)"
        using h1 k by blast
      from src [OF nth_mem [OF k] hk0] show False
      proof
        assume "folders ! k = folders ! t"
        with hk0 exn [OF k tD [THEN conjunct1], of appId] kt show False by simp
      next
        assume fr: "from_folder fromFolderId folders = Some (folders ! k)"
        then obtain fid where fid: "fromFolderId = Some fid" "fid \<noteq> []"
            "find_folder fid folders = Some (folders ! k)"
          by (auto simp: from_folder_def split: option.splits if_splits)
        from fid(3) obtain s where s: "findIndex (\<lambda>f. folder_id f = fid) folders = Some s"
            "folders ! s = folders ! k"
          unfolding find_folder_def by (blast dest: find_Some_findIndex)
        note sD = findIndex_SomeD [OF s(1)]
        have "s = k"
          using exn [of s k appId] sD k hk0 s(2) by simp
        then have "folders1 ! k = remove_app appId (folders ! k)"
          using fid s k by (simp add: folders1_def nth_update_first)
        with hk1 show False by (simp add: holds_app_remove_app)
      qed
    qed
    from only_t [OF ij(1) hi] only_t [OF ij(2) hj] show ?thesis by simp
  qed
  show ?thesis
    unfolding exclusive_nth
  proof (intro allI impI)
    fix b i j
    assume i: "i < length ?folders2" and j: "j < length ?folders2"
      and h: "holds_app b (?folders2 ! i) \<and> holds_app b (?folders2 ! j)"
    then have ij: "i < length folders" "j < length folders"
      using len1 by simp_all
    show "i = j"
    proof (cases "b = appId")
      case True
      with a_case [OF ij] h show ?thesis by simp
    next
      case False
      with h h2 ij exn show ?thesis by metis
    qed
  qed
qed


lemma create_exclusive:
  "exclusive folders \<Longrightarrow> applicationIds newFolder = [] \<Longrightarrow> exclusive (folders @ [newFolder])"
  by (simp add: exclusive_iff holds_app_def)

lemma splice1_exclusive:
  assumes "\<And>b j1 j2. j1 < length xs \<Longrightarrow> j2 < length xs \<Longrightarrow> j1 \<noteq> i \<Longrightarrow> j2 \<noteq> i \<Longrightarrow>
      holds_app b (xs ! j1) \<Longrightarrow> holds_app b (xs ! j2) \<Longrightarrow> j1 = j2"
    and i: "i < length xs"
  shows "exclusive (splice1 i xs)"
  unfolding exclusive_nth
proof (intro allI impI)
  fix b n1 n2
  assume n: "n1 < length (splice1 i xs)" "n2 < length (splice1 i xs)"
    and h: "holds_app b (splice1 i xs ! n1) \<and> holds_app b (splice1 i xs ! n2)"
  let ?s = "\<lambda>n. if n < i then n else Suc n"
  from n i have n': "n1 < length xs - 1" "n2 < length xs - 1"
    by (simp_all add: length_splice1)
  then have "splice1 i xs ! n1 = xs ! ?s n1" "splice1 i xs ! n2 = xs ! ?s n2"
    by (simp_all add: nth_splice1)
  with h have "holds_app b (xs ! ?s n1)" "holds_app b (xs ! ?s n2)"
    by simp_all
  moreover have "?s n1 < length xs" "?s n2 < length xs" "?s n1 \<noteq> i" "?s n2 \<noteq> i"
    using n' by auto
  ultimately have "?s n1 = ?s n2"
    by (rule assms(1) [rotated 4])
  then show "n1 = n2"
    by (auto split: if_splits)
qed

text \<open>The folder list that deleteFolder stores.\<close>

lemma delete_exclusive:
  assumes ex: "exclusive folders"
    and i: "findIndex (\<lambda>f. folder_id f = folderId) folders = Some i"
    and ids: "set otherIds \<subseteq> set (applicationIds otherFolder) \<union> set (applicationIds (folders ! i))"
    and o: "find_folder ''folder_other'' folders = Some otherFolder"
  shows "exclusive (splice1 i (update_first (\<lambda>f. folder_id f = ''folder_other'')
                     (\<lambda>f. f\<lparr>applicationIds := otherIds\<rparr>) folders))"
proof -
  let ?p = "\<lambda>f. folder_id f = ''folder_other''"
  let ?fs1 = "update_first ?p (\<lambda>f. f\<lparr>applicationIds := otherIds\<rparr>) folders"
  note iD = findIndex_SomeD [OF i]
  from o obtain k where k: "findIndex ?p folders = Some k" "folders ! k = otherFolder"
    unfolding find_folder_def by (blast dest: find_Some_findIndex)
  have exn: "\<And>b i j. i < length folders \<Longrightarrow> j < length folders \<Longrightarrow>
      holds_app b (folders ! i) \<Longrightarrow> holds_app b (folders ! j) \<Longrightarrow> i = j"
    using ex unfolding exclusive_nth by blast
  have h: "holds_app b (folders ! j) \<or> (j = k \<and> holds_app b (folders ! i))"
    if "j < length folders" "holds_app b (?fs1 ! j)" for b j
    using that k ids by (auto simp: nth_update_first holds_app_def split: if_splits)
  show ?thesis
  proof (rule splice1_exclusive)
    show "i < length ?fs1" using iD by simp
  next
    fix b j1 j2
    assume j: "j1 < length ?fs1" "j2 < length ?fs1" "j1 \<noteq> i" "j2 \<noteq> i"
      and hj: "holds_app b (?fs1 ! j1)" "holds_app b (?fs1 ! j2)"
    from j have j': "j1 < length folders" "j2 < length folders" by simp_all
    from h [OF j'(1) hj(1)] h [OF j'(2) hj(2)] show "j1 = j2"
      using exn [of j1 j2 b] exn [of j1 i b] exn [of j2 i b] j' j(3,4) iD
      by auto
  qed
qed

lemma removal_exclusive:
  assumes ex: "exclusive folders" and i: "i < length folders"
  shows "exclusive (splice1 i folders)"
  using ex i by (intro splice1_exclusive) (auto simp: exclusive_nth)

text \<open>The loop of autoCategorizeNewApps.\<close>

lemma categorize_exclusive:
  assumes "exclusive folders" "distinct (map app_id apps)"
    and "\<forall>app \<in> set apps. \<forall>f \<in> set folders. \<not> holds_app (app_id app) f"
  shows "exclusive (fst (categorize_apps apps folders m))"
  using assms
proof (induction apps arbitrary: folders m)
  case Nil
  then show ?case by simp
next
  case (Cons a apps)
  let ?x = "getCategoryForApp a folders"
  let ?fs1 = "update_first (\<lambda>f. folder_id f = ?x) (push_app (app_id a)) folders"
  have rest: "\<forall>app \<in> set apps. \<forall>f \<in> set folders. \<not> holds_app (app_id app) f"
    using Cons.prems(3) by simp
  have d: "distinct (map app_id apps)" using Cons.prems(2) by simp
  have none: "\<And>j. j < length folders \<Longrightarrow> \<not> holds_app (app_id a) (folders ! j)"
    using Cons.prems(3) by simp
  have exn: "\<And>b i j. i < length folders \<Longrightarrow> j < length folders \<Longrightarrow>
      holds_app b (folders ! i) \<Longrightarrow> holds_app b (folders ! j) \<Longrightarrow> i = j"
    using Cons.prems(1) unfolding exclusive_nth by blast
  have ex1: "exclusive ?fs1"
    unfolding exclusive_nth
  proof (intro allI impI)
    fix b i j
    assume ij: "i < length ?fs1" "j < length ?fs1"
      and h: "holds_app b (?fs1 ! i) \<and> holds_app b (?fs1 ! j)"
    then have ij': "i < length folders" "j < length folders" by simp_all
    show "i = j"
    proof (cases "b = app_id a")
      case True
      with h ij' none show ?thesis
        by (auto simp: nth_update_first holds_app_push_app split: if_splits)
    next
      case False
      with h ij' have "holds_app b (folders ! i)" "holds_app b (folders ! j)"
        by (auto simp: nth_update_first holds_app_push_app split: if_splits)
      with exn ij' show ?thesis by blast
    qed
  qed
  have rest1: "\<forall>app \<in> set apps. \<forall>f \<in> set ?fs1. \<not> holds_app (app_id app) f"
  proof (intro ballI)
    fix app f
    assume app: "app \<in> set apps" and f: "f \<in> set ?fs1"
    then obtain j where j: "j < length folders" "?fs1 ! j = f"
      by (auto simp: in_set_conv_nth)
    have ne: "app_id app \<noteq> app_id a"
      using Cons.prems(2) app by (auto simp: image_iff)
    have "\<not> holds_app (app_id app) (folders ! j)"
      using rest app j(1) by simp
    with j ne show "\<not> holds_app (app_id app) f"
      by (auto simp: nth_update_first holds_app_push_app split: if_splits)
  qed
  from Cons.IH [OF Cons.prems(1) d rest] Cons.IH [OF ex1 d rest1]
  show ?case
    by (simp split: option.splits)
qed

text \<open>The folder list that reorderFolders stores.\<close>

lemma exclusive_cong:
  assumes "mset (map applicationIds folders') = mset (map applicationIds folders)"
  shows "exclusive folders' \<longleftrightarrow> exclusive folders"
proof -
  have "length (filter (holds_app a) fs)
      = size (filter_mset (\<lambda>l. a \<in> set l) (mset (map applicationIds fs)))" for a fs
    by (induction fs) (simp_all add: holds_app_def)
  with assms show ?thesis
    by (simp add: exclusive_iff)
qed

lemma applicationIds_assign_positions:
  "map applicationIds (assign_positions folderIds index folders) = map applicationIds folders"
proof (induction folderIds arbitrary: index folders)
  case Nil
  show ?case by simp
next
  case (Cons x xs)
  have "map applicationIds (update_first p (\<lambda>f. f\<lparr>position := q\<rparr>) fs) = map applicationIds fs"
    for p q and fs :: "LaunchmatFolder list"
    by (induction fs) auto
  with Cons.IH show ?case by simp
qed

lemma reorder_exclusive:
  "exclusive (sort_key position (assign_positions folderIds 0 folders)) \<longleftrightarrow> exclusive folders"
proof -
  have "mset (map applicationIds (sort_key position (assign_positions folderIds 0 folders)))
      = mset (map applicationIds (assign_positions folderIds 0 folders))"
    by simp
  then show ?thesis
    by (intro exclusive_cong) (simp add: applicationIds_assign_positions)
qed


lemma default_folders_exclusive: "exclusive (createDefaultFolders now)"
  by (simp add: exclusive_def all_app_ids_def createDefaultFolders_def)

lemma loaded_exclusive: "stored_exclusive st \<Longrightarrow> exclusive (fst (loadFolders now st))"
  by (simp add: stored_exclusive_def loadFolders_eq default_folders_exclusive split: option.splits)

lemma stored_exclusive_update [simp]:
  "stored_exclusive (st\<lparr>folders_item := Some fs\<rparr>) = exclusive fs"
  "stored_exclusive (st\<lparr>app_mappings_item := m\<rparr>) = stored_exclusive st"
  by (simp_all add: stored_exclusive_def)

lemma apply_op_exclusive:
  assumes st: "stored_exclusive st" and ok: "keeps_exclusive now op st"
  shows "stored_exclusive (apply_op now op st)"
proof -
  note ld = loaded_exclusive [OF st, of now]
  show ?thesis
  proof (cases op)
    case (MoveAppToFolder appId fromFolderId toFolderId)
    with ok have "move_names_source appId fromFolderId toFolderId (fst (loadFolders now st))"
      by (simp add: keeps_exclusive_def)
    from move_exclusive [OF ld this] st MoveAppToFolder show ?thesis
      by (simp add: apply_op_def moveAppToFolder_def store_unfold)
  next
    case (CreateFolder name' color' icon' now_ms)
    with st create_exclusive [OF ld] show ?thesis
      by (simp add: apply_op_def createFolder_def store_unfold)
  next
    case (DeleteFolder folderId)
    show ?thesis
    proof (cases "findIndex (\<lambda>f. folder_id f = folderId) (fst (loadFolders now st))")
      case None
      with st DeleteFolder show ?thesis
        by (simp add: apply_op_def deleteFolder_not_found)
    next
      case (Some i)
      note iD = findIndex_SomeD [OF Some]
      show ?thesis
      proof (cases "find_folder ''folder_other'' (fst (loadFolders now st))")
        case None
        with st DeleteFolder Some removal_exclusive [OF ld, of i] iD show ?thesis
          by (simp add: apply_op_def deleteFolder_def store_unfold)
      next
        case o: (Some otherFolder)
        have "exclusive (splice1 i (update_first (\<lambda>f. folder_id f = ''folder_other'')
            (\<lambda>f. f\<lparr>applicationIds :=
               fst (reassign_apps (applicationIds (fst (loadFolders now st) ! i))
                      (applicationIds otherFolder) (fst (loadApplicationMappings st)))\<rparr>)
            (fst (loadFolders now st))))"
          by (rule delete_exclusive [OF ld Some _ o]) (simp add: reassign_apps_set)
        with st DeleteFolder Some o show ?thesis
          by (simp add: apply_op_def deleteFolder_def store_unfold)
      qed
    qed
  next
    case (AutoCategorizeNewApps applications)
    with ok have "new_apps_unfiled applications (fst (loadFolders now st))
        (fst (loadApplicationMappings st))"
      by (simp add: keeps_exclusive_def)
    then have "exclusive (fst (categorize_apps
        (filter (\<lambda>app. fst (loadApplicationMappings st) (app_id app) = None) applications)
        (fst (loadFolders now st)) (fst (loadApplicationMappings st))))"
      using ld by (intro categorize_exclusive) (simp_all add: new_apps_unfiled_def Let_def list_all_iff)
    with st AutoCategorizeNewApps show ?thesis
      by (simp add: apply_op_def autoCategorizeNewApps_eq Let_def)
  next
    case (ReorderFolders folderIds)
    with st ld show ?thesis
      by (simp add: apply_op_def reorderFolders_def store_unfold reorder_exclusive)
  qed
qed

text \<open>
  C1, amended: start from a store in which every application id is in at most one
  folder, and run any sequence of \<^verbatim>\<open>moveAppToFolder\<close>, \<^verbatim>\<open>createFolder\<close>,
  \<^verbatim>\<open>deleteFolder\<close>, \<^verbatim>\<open>autoCategorizeNewApps\<close> (and \<^verbatim>\<open>reorderFolders\<close>) calls, rejected
  reads and writes included, in which every \<^verbatim>\<open>moveAppToFolder\<close> names the folders
  rightly (each folder that lists the application is the one found for
  \<^verbatim>\<open>fromFolderId\<close> or the one found for \<^verbatim>\<open>toFolderId\<close>, or no folder has the id
  \<^verbatim>\<open>toFolderId\<close>) and every \<^verbatim>\<open>autoCategorizeNewApps\<close> gets new applications with
  pairwise distinct ids that are in no folder. Then after each call every application id
  is in at most one folder of the store.
\<close>

theorem membership_stays_exclusive:
  assumes "stored_exclusive st" and "each_call keeps_exclusive ops st"
  shows "list_all stored_exclusive (states_after ops st)"
  using assms
proof (induction ops arbitrary: st)
  case Nil
  show ?case by simp
next
  case (Cons c ops)
  obtain now op where c: "c = (now, op)" by (cases c)
  from Cons.prems c have ok: "keeps_exclusive now op st"
    and rest: "each_call keeps_exclusive ops (apply_op now op st)"
    by simp_all
  from apply_op_exclusive [OF Cons.prems(1) ok] Cons.IH [OF _ rest] c
  show ?case by simp
qed


lemma digit_chars:
  "char_of (48::nat) = CHR ''0''" "char_of (49::nat) = CHR ''1''" "char_of (50::nat) = CHR ''2''"
  "char_of (51::nat) = CHR ''3''" "char_of (52::nat) = CHR ''4''" "char_of (53::nat) = CHR ''5''"
  "char_of (54::nat) = CHR ''6''" "char_of (55::nat) = CHR ''7''" "char_of (56::nat) = CHR ''8''"
  "char_of (57::nat) = CHR ''9''"
  by (simp_all add: char_of_def bit_iff_odd_drop_bit drop_bit_eq_div)

lemma string_of_nat_example: "string_of_nat 1700000000000 = ''1700000000000''"
  by (simp add: string_of_nat.simps digit_chars)

lemmas op_eval = apply_op_def keeps_exclusive_def move_names_source_def from_folder_def
  new_apps_unfiled_def holds_app_def add_app_def remove_app_def push_app_def
  autoCategorizeNewApps_eq getCategoryForApp_def toLowerCase_Games categoryMapping_def
  example_app_def string_of_nat_example

theorem membership_stays_exclusive_witness:
  "stored_exclusive example_store
   \<and> each_call keeps_exclusive
        [(''2024-02-01T00:00:00.000Z'',
            MoveAppToFolder ''app1'' (Some ''folder_games'') ''folder_other''),
         (''2024-02-02T00:00:00.000Z'', DeleteFolder ''folder_games''),
         (''2024-02-03T00:00:00.000Z'', AutoCategorizeNewApps [example_app])]
        example_store
   \<and> list_all stored_exclusive (states_after
        [(''2024-02-01T00:00:00.000Z'',
            MoveAppToFolder ''app1'' (Some ''folder_games'') ''folder_other''),
         (''2024-02-02T00:00:00.000Z'', DeleteFolder ''folder_games''),
         (''2024-02-03T00:00:00.000Z'', AutoCategorizeNewApps [example_app])]
        example_store)"
proof -
  let ?op1 = "MoveAppToFolder ''app1'' (Some ''folder_games'') ''folder_other''"
  let ?op2 = "DeleteFolder ''folder_games''"
  let ?op3 = "AutoCategorizeNewApps [example_app]"
  let ?games = "\<lparr>folder_id = ''folder_games'', folder_name = ''Games'', color = ''#FF9FF3'',
               icon = ''gamepad'', applicationIds = [], position = 0,
               createdAt = ''2024-01-01T00:00:00.000Z'', updatedAt = None\<rparr>"
  let ?other = "\<lparr>folder_id = ''folder_other'', folder_name = ''Other'', color = ''#5F27CD'',
               icon = ''grid'', applicationIds = [''app2'', ''app1''], position = 1,
               createdAt = ''2024-01-01T00:00:00.000Z'', updatedAt = None\<rparr>"
  let ?m = "[''app2'' \<mapsto> ''folder_other'', ''app1'' \<mapsto> ''folder_other'']"
  let ?s1 = "example_store\<lparr>folders_item := Some [?games, ?other], app_mappings_item := Some ?m\<rparr>"
  let ?s2 = "example_store\<lparr>folders_item := Some [?other], app_mappings_item := Some ?m\<rparr>"
  have s1: "apply_op ''2024-02-01T00:00:00.000Z'' ?op1 example_store = ?s1"
    by (simp add: op_eval store_eval)
  have s2: "apply_op ''2024-02-02T00:00:00.000Z'' ?op2 ?s1 = ?s2"
    by (simp add: op_eval store_eval)
  have h0: "stored_exclusive example_store"
    by (simp add: stored_exclusive_def exclusive_def all_app_ids_def holds_app_def
        example_store_def empty_store_def)
  have k1: "keeps_exclusive ''2024-02-01T00:00:00.000Z'' ?op1 example_store"
    by (simp add: op_eval store_eval)
  have k2: "keeps_exclusive ''2024-02-02T00:00:00.000Z'' ?op2 ?s1"
    by (simp add: keeps_exclusive_def)
  have k3: "keeps_exclusive ''2024-02-03T00:00:00.000Z'' ?op3 ?s2"
    by (simp add: op_eval store_eval)
  have h: "each_call keeps_exclusive
        [(''2024-02-01T00:00:00.000Z'', ?op1), (''2024-02-02T00:00:00.000Z'', ?op2),
         (''2024-02-03T00:00:00.000Z'', ?op3)] example_store"
    using k1 k2 k3 by (simp add: s1 s2)
  from h0 h membership_stays_exclusive [OF h0 h] show ?thesis
    by blast
qed


text \<open>
  C1, as the spec states it, holds for every \<^verbatim>\<open>fromFolderId\<close>, \<^verbatim>\<open>null\<close> included.
  From the empty store, two moves of \<^verbatim>\<open>app1\<close> with \<^verbatim>\<open>null\<close> for \<^verbatim>\<open>fromFolderId\<close>,
  to \<^verbatim>\<open>folder_games\<close> and then to \<^verbatim>\<open>folder_other\<close>, leave the application in both
  folders.
\<close>

theorem membership_shared_after_moves:
  "stored_exclusive empty_store
   \<and> states_after
        [(''2024-01-01T00:00:00.000Z'', MoveAppToFolder ''app1'' None ''folder_games''),
         (''2024-01-02T00:00:00.000Z'', MoveAppToFolder ''app1'' None ''folder_other'')]
        empty_store
      = [snd (moveAppToFolder ''app1'' None ''folder_games'' ''2024-01-01T00:00:00.000Z''
                empty_store),
         twice_moved_store]
   \<and> map folder_id (fst (loadFolders ''2024-01-03T00:00:00.000Z'' twice_moved_store))
      = [''folder_productivity'', ''folder_development'', ''folder_graphics'',
         ''folder_entertainment'', ''folder_utilities'', ''folder_games'',
         ''folder_communication'', ''folder_other'']
   \<and> map applicationIds (fst (loadFolders ''2024-01-03T00:00:00.000Z'' twice_moved_store))
      = [ [], [], [], [], [], [''app1''], [], [''app1'']]
   \<and> \<not> stored_exclusive twice_moved_store"
proof -
  have a: "stored_exclusive empty_store"
    by (simp add: stored_exclusive_def empty_store_def)
  have b: "states_after
        [(''2024-01-01T00:00:00.000Z'', MoveAppToFolder ''app1'' None ''folder_games''),
         (''2024-01-02T00:00:00.000Z'', MoveAppToFolder ''app1'' None ''folder_other'')]
        empty_store
      = [snd (moveAppToFolder ''app1'' None ''folder_games'' ''2024-01-01T00:00:00.000Z''
                empty_store),
         twice_moved_store]"
    by (simp add: apply_op_def twice_moved_store_def)
  have c: "map folder_id (fst (loadFolders ''2024-01-03T00:00:00.000Z'' twice_moved_store))
      = [''folder_productivity'', ''folder_development'', ''folder_graphics'',
         ''folder_entertainment'', ''folder_utilities'', ''folder_games'',
         ''folder_communication'', ''folder_other'']"
    "map applicationIds (fst (loadFolders ''2024-01-03T00:00:00.000Z'' twice_moved_store))
      = [ [], [], [], [], [], [''app1''], [], [''app1'']]"
    by (simp_all add: twice_moved_store_eq loadFolders_eq empty_store_def createDefaultFolders_def)
  have d: "\<not> stored_exclusive twice_moved_store"
    by (simp add: twice_moved_store_eq stored_exclusive_def exclusive_def all_app_ids_def
        holds_app_def createDefaultFolders_def)
  from a b c d show ?thesis by blast
qed

section \<open>Dense positions along sequences of operations\<close>

lemma map_update_first_same:
  "(\<And>f. h (g f) = h f) \<Longrightarrow> map h (update_first p g xs) = map h xs"
  by (induction xs) auto

lemma update_first_distinct:
  "distinct (map h xs) \<Longrightarrow>
     update_first (\<lambda>f. h f = x) g xs = map (\<lambda>f. if h f = x then g f else f) xs"
proof (induction xs)
  case Nil
  show ?case by simp
next
  case (Cons y ys)
  show ?case
  proof (cases "h y = x")
    case True
    with Cons.prems have "\<forall>f \<in> set ys. h f \<noteq> x" by (auto simp: image_iff)
    then have "map (\<lambda>f. if h f = x then g f else f) ys = ys"
      by (simp add: map_idI)
    with True show ?thesis by simp
  next
    case False
    with Cons show ?thesis by simp
  qed
qed

lemma findIndex_nth_distinct:
  "distinct xs \<Longrightarrow> n < length xs \<Longrightarrow> findIndex (\<lambda>z. z = xs ! n) xs = Some n"
proof (induction xs arbitrary: n)
  case Nil
  then show ?case by simp
next
  case (Cons x xs)
  show ?case
  proof (cases n)
    case 0
    then show ?thesis by simp
  next
    case (Suc k)
    with Cons.prems have "xs ! k \<noteq> x" "k < length xs" "distinct xs"
      by auto
    with Cons.IH [of k] Suc show ?thesis by simp
  qed
qed

lemma index_list_distinct:
  assumes "distinct ids"
  shows "map (\<lambda>y. the (findIndex (\<lambda>z. z = y) ids)) ids = [0..<length ids]"
  by (rule nth_equalityI) (simp_all add: findIndex_nth_distinct [OF assms])

text \<open>What the forEach of reorderFolders makes of folders with distinct ids.\<close>

lemma assign_positions_spec:
  assumes "distinct (map folder_id fs)" "distinct ids"
  shows "map folder_id (assign_positions ids k fs) = map folder_id fs
       \<and> map position (assign_positions ids k fs)
         = map (\<lambda>f. case findIndex (\<lambda>z. z = folder_id f) ids of
                        None \<Rightarrow> position f | Some n \<Rightarrow> int (k + n)) fs"
  using assms
proof (induction ids arbitrary: k fs)
  case Nil
  show ?case by simp
next
  case (Cons x xs)
  let ?g = "\<lambda>f. f\<lparr>position := int k\<rparr>"
  let ?fs' = "update_first (\<lambda>f. folder_id f = x) ?g fs"
  have ids': "map folder_id ?fs' = map folder_id fs"
    by (simp add: map_update_first_same)
  have fs': "?fs' = map (\<lambda>f. if folder_id f = x then ?g f else f) fs"
    using Cons.prems(1) by (rule update_first_distinct)
  have d: "distinct (map folder_id ?fs')" "distinct xs"
    using Cons.prems ids' by simp_all
  have nx: "findIndex (\<lambda>z. z = x) xs = None"
    using Cons.prems(2) by (auto simp add: findIndex_None_iff)
  from Cons.IH [OF d, of "Suc k"]
  have 1: "map folder_id (assign_positions xs (Suc k) ?fs') = map folder_id fs"
    and 2: "map position (assign_positions xs (Suc k) ?fs')
         = map (\<lambda>f. case findIndex (\<lambda>z. z = folder_id f) xs of
                        None \<Rightarrow> position f | Some n \<Rightarrow> int (Suc k + n)) ?fs'"
    using ids' by simp_all
  have "map (\<lambda>f. case findIndex (\<lambda>z. z = folder_id f) xs of
                        None \<Rightarrow> position f | Some n \<Rightarrow> int (Suc k + n)) ?fs'
      = map (\<lambda>f. case findIndex (\<lambda>z. z = folder_id f) (x # xs) of
                        None \<Rightarrow> position f | Some n \<Rightarrow> int (k + n)) fs"
    unfolding fs' using nx
    by (auto split: option.splits)
  with 1 2 show ?case by simp
qed

lemma reorder_dense:
  assumes d: "distinct (map folder_id fs)" "distinct ids"
    and s: "set ids = set (map folder_id fs)"
  shows "mset (map position (assign_positions ids 0 fs)) = mset (map int [0..<length fs])"
proof -
  let ?ix = "\<lambda>y. the (findIndex (\<lambda>z. z = y) ids)"
  have m: "mset (map folder_id fs) = mset ids"
    using d s set_eq_iff_mset_eq_distinct [of "map folder_id fs" ids] by simp
  then have len: "length fs = length ids"
    by (metis length_map size_mset)
  have some: "findIndex (\<lambda>z. z = folder_id f) ids \<noteq> None" if "f \<in> set fs" for f
    using that s by (auto simp: findIndex_None_iff)
  have pt: "(case findIndex (\<lambda>z. z = folder_id f) ids of
               None \<Rightarrow> position f | Some n \<Rightarrow> int (0 + n)) = int (?ix (folder_id f))"
    if "f \<in> set fs" for f
    using some [OF that] by (cases "findIndex (\<lambda>z. z = folder_id f) ids") simp_all
  have "map (\<lambda>f. case findIndex (\<lambda>z. z = folder_id f) ids of
               None \<Rightarrow> position f | Some n \<Rightarrow> int (0 + n)) fs
      = map (\<lambda>f. int (?ix (folder_id f))) fs"
    by (rule map_cong [OF refl]) (rule pt)
  then have "map position (assign_positions ids 0 fs)
      = map (\<lambda>f. int (?ix (folder_id f))) fs"
    using assign_positions_spec [OF d, of 0] by simp
  also have "\<dots> = map (int \<circ> ?ix) (map folder_id fs)"
    by simp
  finally have "mset (map position (assign_positions ids 0 fs))
      = image_mset (int \<circ> ?ix) (mset (map folder_id fs))"
    by (simp only: mset_map)
  also have "\<dots> = mset (map (int \<circ> ?ix) ids)"
    using m by (metis mset_map)
  also have "map (int \<circ> ?ix) ids = map int (map ?ix ids)"
    by simp
  also have "\<dots> = map int [0..<length ids]"
    by (simp only: index_list_distinct [OF d(2)])
  finally show ?thesis
    by (simp add: len)
qed


lemma well_positioned_cong:
  assumes "map folder_id fs' = map folder_id fs" "map position fs' = map position fs"
  shows "well_positioned fs' \<longleftrightarrow> well_positioned fs"
proof -
  from assms(1) have "length fs' = length fs"
    by (rule map_eq_imp_length_eq)
  with assms show ?thesis
    by (simp add: well_positioned_def dense_def)
qed

lemma default_folders_well_positioned: "well_positioned (createDefaultFolders now)"
  by (simp add: well_positioned_def dense_def createDefaultFolders_def upt_conv_Cons)

lemma loaded_well_positioned:
  "stored_well_positioned st \<Longrightarrow> well_positioned (fst (loadFolders now st))"
  by (simp add: stored_well_positioned_def loadFolders_eq default_folders_well_positioned
      split: option.splits)

lemma create_well_positioned:
  assumes "well_positioned fs" "folder_id newFolder \<notin> set (map folder_id fs)"
    "position newFolder = int (length fs)"
  shows "well_positioned (fs @ [newFolder])"
  using assms by (simp add: well_positioned_def dense_def)

lemma mset_splice1: "i < length xs \<Longrightarrow> add_mset (xs ! i) (mset (splice1 i xs)) = mset xs"
proof -
  assume "i < length xs"
  then have "xs = take i xs @ xs ! i # drop (Suc i) xs"
    by (rule id_take_nth_drop)
  then have "mset xs = mset (take i xs @ xs ! i # drop (Suc i) xs)"
    by simp
  then show ?thesis
    by (simp add: splice1_def)
qed

lemma distinct_splice1:
  assumes "distinct xs"
  shows "distinct (splice1 i xs)"
proof -
  have "set (take i xs) \<inter> set (drop (Suc i) xs) = {}"
    using assms by (rule set_take_disj_set_drop_if_distinct) simp
  with assms show ?thesis
    by (simp add: splice1_def)
qed

lemma delete_well_positioned:
  assumes wp: "well_positioned fs" and i: "i < length fs"
    and last: "position (fs ! i) = int (length fs) - 1"
    and same: "map folder_id fs1 = map folder_id fs" "map position fs1 = map position fs"
  shows "well_positioned (splice1 i fs1)"
proof -
  from same(1) have len: "length fs1 = length fs"
    by (rule map_eq_imp_length_eq)
  obtain n where n: "length fs = Suc n"
    using i by (cases "length fs") simp_all
  have "distinct (map folder_id (splice1 i fs1))"
    using wp same(1) by (simp add: map_splice1 distinct_splice1 well_positioned_def)
  moreover have "mset (map position (splice1 i fs1)) = mset (map int [0..<length (splice1 i fs1)])"
  proof -
    have "add_mset (map position fs ! i) (mset (splice1 i (map position fs))) = mset (map position fs)"
      using i by (intro mset_splice1) simp
    also have "\<dots> = mset (map int [0..<Suc n])"
      using wp n by (simp add: well_positioned_def dense_def)
    also have "\<dots> = add_mset (int n) (mset (map int [0..<n]))"
      by simp
    finally have "mset (splice1 i (map position fs)) = mset (map int [0..<n])"
      using last i n by simp
    then show ?thesis
      using i n len same(2) by (simp add: map_splice1 length_splice1)
  qed
  ultimately show ?thesis
    by (simp add: well_positioned_def dense_def)
qed

lemma reorder_well_positioned:
  assumes wp: "distinct (map folder_id fs)" and ok: "distinct ids" "set ids = set (map folder_id fs)"
  shows "well_positioned (sort_key position (assign_positions ids 0 fs))"
proof -
  let ?fs' = "assign_positions ids 0 fs"
  have ids: "map folder_id ?fs' = map folder_id fs"
    using assign_positions_spec [OF wp ok(1), of 0] by simp
  then have len: "length ?fs' = length fs"
    by (rule map_eq_imp_length_eq)
  have "mset (map folder_id (sort_key position ?fs')) = mset (map folder_id fs)"
    using ids by (metis mset_map mset_sort)
  then have "distinct (map folder_id (sort_key position ?fs'))"
    using wp by (metis mset_eq_imp_distinct_iff)
  moreover have "mset (map position (sort_key position ?fs')) = mset (map int [0..<length fs])"
    using reorder_dense [OF wp ok] by simp
  ultimately show ?thesis
    using len by (simp add: well_positioned_def dense_def)
qed

lemma categorize_apps_same:
  "map folder_id (fst (categorize_apps apps fs m)) = map folder_id fs
   \<and> map position (fst (categorize_apps apps fs m)) = map position fs"
proof (induction apps arbitrary: fs m)
  case Nil
  show ?case by simp
next
  case (Cons a apps)
  let ?fs1 = "update_first (\<lambda>f. folder_id f = getCategoryForApp a fs) (push_app (app_id a)) fs"
  have "map folder_id ?fs1 = map folder_id fs" "map position ?fs1 = map position fs"
    by (simp_all add: map_update_first_same push_app_def)
  with Cons.IH [of fs m] Cons.IH [of ?fs1] show ?case
    by (simp split: option.splits)
qed

lemma stored_well_positioned_update [simp]:
  "stored_well_positioned (st\<lparr>folders_item := Some fs\<rparr>) = well_positioned fs"
  "stored_well_positioned (st\<lparr>app_mappings_item := m\<rparr>) = stored_well_positioned st"
  by (simp_all add: stored_well_positioned_def)

lemma move_well_positioned:
  assumes st: "stored_well_positioned st"
  shows "stored_well_positioned (snd (moveAppToFolder appId fromFolderId toFolderId now st))"
proof -
  let ?fs = "fst (loadFolders now st)"
  note ld = loaded_well_positioned [OF st, of now]
  let ?fs1 = "(case fromFolderId of
                        None \<Rightarrow> ?fs
                      | Some fid \<Rightarrow>
                          if fid = [] then ?fs
                          else update_first (\<lambda>f. folder_id f = fid) (remove_app appId) ?fs)"
  let ?fs2 = "update_first (\<lambda>f. folder_id f = toFolderId) (add_app appId) ?fs1"
  have e: "map folder_id ?fs2 = map folder_id ?fs" "map position ?fs2 = map position ?fs"
    by (simp_all add: map_update_first_same remove_app_def add_app_def push_app_def
        split: option.splits)
  have "well_positioned ?fs2"
    using well_positioned_cong [OF e] ld by (rule iffD2)
  with st show ?thesis
    by (simp add: moveAppToFolder_def store_unfold)
qed

lemma create_stored_well_positioned:
  assumes st: "stored_well_positioned st"
    and ok: "''folder_'' @ string_of_nat now_ms \<notin> set (map folder_id (fst (loadFolders now st)))"
  shows "stored_well_positioned (snd (createFolder name' color' icon' now_ms now st))"
  using ok st loaded_well_positioned [OF st, of now]
  by (simp add: createFolder_def store_unfold create_well_positioned)

lemma delete_stored_well_positioned:
  assumes st: "stored_well_positioned st"
    and ok: "case find_folder folderId (fst (loadFolders now st)) of
                None \<Rightarrow> True
              | Some folder \<Rightarrow> position folder = int (length (fst (loadFolders now st))) - 1"
  shows "stored_well_positioned (snd (deleteFolder folderId now st))"
proof -
  let ?fs = "fst (loadFolders now st)"
  note ld = loaded_well_positioned [OF st, of now]
  show ?thesis
  proof (cases "findIndex (\<lambda>f. folder_id f = folderId) ?fs")
    case None
    with st show ?thesis
      by (simp add: deleteFolder_not_found)
  next
    case (Some i)
    note iD = findIndex_SomeD [OF Some]
    from iD ok have last: "position (?fs ! i) = int (length ?fs) - 1"
      by (simp add: find_folder_def)
    have del: "well_positioned (splice1 i fs1)"
      if "map folder_id fs1 = map folder_id ?fs" "map position fs1 = map position ?fs" for fs1
      using iD delete_well_positioned [OF ld _ last that] by simp
    show ?thesis
    proof (cases "find_folder ''folder_other'' ?fs")
      case None
      with st Some del [of ?fs] show ?thesis
        by (simp add: deleteFolder_def store_unfold)
    next
      case o: (Some otherFolder)
      have "well_positioned (splice1 i (update_first (\<lambda>f. folder_id f = ''folder_other'')
          (\<lambda>f. f\<lparr>applicationIds :=
             fst (reassign_apps (applicationIds (?fs ! i))
                    (applicationIds otherFolder) (fst (loadApplicationMappings st)))\<rparr>) ?fs))"
        by (rule del) (simp_all add: map_update_first_same)
      with st Some o show ?thesis
        by (simp add: deleteFolder_def store_unfold)
    qed
  qed
qed

lemma categorize_stored_well_positioned:
  assumes st: "stored_well_positioned st"
  shows "stored_well_positioned
           (snd (autoCategorizeNewApps applications (fst (loadFolders now st)) st))"
proof -
  let ?fs = "fst (loadFolders now st)"
  note ld = loaded_well_positioned [OF st, of now]
  have "well_positioned (fst (categorize_apps
      (filter (\<lambda>app. fst (loadApplicationMappings st) (app_id app) = None) applications)
      ?fs (fst (loadApplicationMappings st))))"
    using well_positioned_cong [OF categorize_apps_same [THEN conjunct1]
        categorize_apps_same [THEN conjunct2]] ld
    by (rule iffD2)
  with st show ?thesis
    by (simp add: autoCategorizeNewApps_eq Let_def)
qed

lemma reorder_stored_well_positioned:
  assumes st: "stored_well_positioned st"
    and ok: "distinct folderIds" "set folderIds = set (map folder_id (fst (loadFolders now st)))"
  shows "stored_well_positioned (snd (reorderFolders folderIds now st))"
proof -
  let ?fs = "fst (loadFolders now st)"
  have "distinct (map folder_id ?fs)"
    using loaded_well_positioned [OF st, of now] by (simp add: well_positioned_def)
  from reorder_well_positioned [OF this ok] st show ?thesis
    by (simp add: reorderFolders_def store_unfold)
qed

lemma apply_op_well_positioned:
  assumes st: "stored_well_positioned st" and ok: "keeps_dense now op st"
  shows "stored_well_positioned (apply_op now op st)"
proof (cases op)
  case (MoveAppToFolder appId fromFolderId toFolderId)
  with move_well_positioned [OF st] show ?thesis
    by (simp add: apply_op_def)
next
  case (CreateFolder name' color' icon' now_ms)
  with ok have "''folder_'' @ string_of_nat now_ms \<notin> set (map folder_id (fst (loadFolders now st)))"
    by (simp add: keeps_dense_def Let_def)
  from create_stored_well_positioned [OF st this] CreateFolder show ?thesis
    by (simp add: apply_op_def)
next
  case (DeleteFolder folderId)
  with ok have "case find_folder folderId (fst (loadFolders now st)) of
                None \<Rightarrow> True
              | Some folder \<Rightarrow> position folder = int (length (fst (loadFolders now st))) - 1"
    by (simp add: keeps_dense_def Let_def)
  from delete_stored_well_positioned [OF st this] DeleteFolder show ?thesis
    by (simp add: apply_op_def)
next
  case (AutoCategorizeNewApps applications)
  with categorize_stored_well_positioned [OF st] show ?thesis
    by (simp add: apply_op_def)
next
  case (ReorderFolders folderIds)
  with ok have "distinct folderIds" "set folderIds = set (map folder_id (fst (loadFolders now st)))"
    by (simp_all add: keeps_dense_def Let_def)
  from reorder_stored_well_positioned [OF st this] ReorderFolders show ?thesis
    by (simp add: apply_op_def)
qed

text \<open>
  C2, amended: start from a store whose folders have distinct ids and the positions
  0 to count - 1 (the empty store and the seeded default folders are such), and run any
  sequence of \<^verbatim>\<open>createFolder\<close>, \<^verbatim>\<open>deleteFolder\<close> and \<^verbatim>\<open>reorderFolders\<close> calls
  (\<^verbatim>\<open>moveAppToFolder\<close> and \<^verbatim>\<open>autoCategorizeNewApps\<close> may come between) in which every
  created folder gets an id that no folder has, every \<^verbatim>\<open>reorderFolders\<close> is given
  each current folder id exactly once, and every \<^verbatim>\<open>deleteFolder\<close> deletes the folder
  in the last position (or finds no folder). Then after each call the ids are distinct
  and the positions are exactly 0 to count - 1.
\<close>

theorem positions_stay_dense:
  assumes "stored_well_positioned st" and "each_call keeps_dense ops st"
  shows "list_all stored_well_positioned (states_after ops st)"
  using assms
proof (induction ops arbitrary: st)
  case Nil
  show ?case by simp
next
  case (Cons c ops)
  obtain now op where c: "c = (now, op)" by (cases c)
  from Cons.prems c have ok: "keeps_dense now op st"
    and rest: "each_call keeps_dense ops (apply_op now op st)"
    by simp_all
  from apply_op_well_positioned [OF Cons.prems(1) ok] Cons.IH [OF _ rest] c
  show ?case by simp
qed


text \<open>
  C2, as the spec states it, allows any \<^verbatim>\<open>deleteFolder\<close>. From the seeded default
  state, \<^verbatim>\<open>deleteFolder("folder_productivity")\<close> leaves seven folders with the
  positions 1 to 7: \<^verbatim>\<open>deleteFolder\<close> does not renumber.
\<close>

theorem positions_gap_after_delete:
  "stored_well_positioned empty_store
   \<and> map position (fst (loadFolders ''2024-01-01T00:00:00.000Z'' empty_store))
      = [0, 1, 2, 3, 4, 5, 6, 7]
   \<and> states_after [(''2024-01-01T00:00:00.000Z'', DeleteFolder ''folder_productivity'')]
        empty_store
      = [snd (deleteFolder ''folder_productivity'' ''2024-01-01T00:00:00.000Z'' empty_store)]
   \<and> map position (fst (loadFolders ''2024-01-02T00:00:00.000Z''
        (snd (deleteFolder ''folder_productivity'' ''2024-01-01T00:00:00.000Z'' empty_store))))
      = [1, 2, 3, 4, 5, 6, 7]
   \<and> \<not> dense (fst (loadFolders ''2024-01-02T00:00:00.000Z''
        (snd (deleteFolder ''folder_productivity'' ''2024-01-01T00:00:00.000Z'' empty_store))))
   \<and> \<not> stored_well_positioned
        (snd (deleteFolder ''folder_productivity'' ''2024-01-01T00:00:00.000Z'' empty_store))"
proof -
  let ?st = "snd (deleteFolder ''folder_productivity'' ''2024-01-01T00:00:00.000Z'' empty_store)"
  have a: "stored_well_positioned empty_store"
    by (simp add: stored_well_positioned_def empty_store_def)
  have b: "map position (fst (loadFolders ''2024-01-01T00:00:00.000Z'' empty_store))
      = [0, 1, 2, 3, 4, 5, 6, 7]"
    by (simp add: loadFolders_eq empty_store_def createDefaultFolders_def)
  have c: "states_after [(''2024-01-01T00:00:00.000Z'', DeleteFolder ''folder_productivity'')]
        empty_store = [?st]"
    by (simp add: apply_op_def)
  have st: "folders_item ?st = Some (tl (createDefaultFolders ''2024-01-01T00:00:00.000Z''))"
    by (simp add: deleteFolder_def store_unfold loadFolders_eq loadApplicationMappings_eq
        find_folder_def splice1_def empty_store_def createDefaultFolders_def)
  have g: "getItem_fails ?st STORAGE_KEY_FOLDERS = False"
    by (simp add: deleteFolder_def store_unfold loadFolders_eq find_folder_def splice1_def
        empty_store_def split: option.splits)
  have d: "map position (fst (loadFolders ''2024-01-02T00:00:00.000Z'' ?st))
      = [1, 2, 3, 4, 5, 6, 7]"
    by (simp add: loadFolders_eq st g) (simp add: createDefaultFolders_def)
  have len: "length (fst (loadFolders ''2024-01-02T00:00:00.000Z'' ?st)) = 7"
    using d [THEN arg_cong, of length] by simp
  have e: "\<not> dense (fst (loadFolders ''2024-01-02T00:00:00.000Z'' ?st))"
  proof
    assume "dense (fst (loadFolders ''2024-01-02T00:00:00.000Z'' ?st))"
    then have "set (map position (fst (loadFolders ''2024-01-02T00:00:00.000Z'' ?st)))
        = set (map int [0..<length (fst (loadFolders ''2024-01-02T00:00:00.000Z'' ?st))])"
      unfolding dense_def by (rule mset_eq_setD)
    then have "set [1, 2, 3, 4, 5, 6, 7 :: int] = int ` {0..<7}"
      unfolding d len by simp
    moreover have "(7 :: int) \<in> set [1, 2, 3, 4, 5, 6, 7 :: int]"
      by simp
    ultimately have "(7 :: int) \<in> int ` {0..<7}"
      by (simp only:)
    then show False
      by auto
  qed
  have f: "\<not> stored_well_positioned ?st"
    using e by (simp add: stored_well_positioned_def well_positioned_def st loadFolders_eq g)
  from a b c d e f show ?thesis by blast
qed


lemmas dense_eval = apply_op_def keeps_dense_def string_of_nat_example

theorem positions_stay_dense_witness:
  "stored_well_positioned example_store
   \<and> each_call keeps_dense
        [(''2024-02-01T00:00:00.000Z'',
            CreateFolder ''Work'' ''#FF6B6B'' ''briefcase'' 1700000000000),
         (''2024-02-02T00:00:00.000Z'',
            ReorderFolders [''folder_1700000000000'', ''folder_games'', ''folder_other'']),
         (''2024-02-03T00:00:00.000Z'', DeleteFolder ''folder_other'')]
        example_store
   \<and> list_all stored_well_positioned (states_after
        [(''2024-02-01T00:00:00.000Z'',
            CreateFolder ''Work'' ''#FF6B6B'' ''briefcase'' 1700000000000),
         (''2024-02-02T00:00:00.000Z'',
            ReorderFolders [''folder_1700000000000'', ''folder_games'', ''folder_other'']),
         (''2024-02-03T00:00:00.000Z'', DeleteFolder ''folder_other'')]
        example_store)"
proof -
  let ?op1 = "CreateFolder ''Work'' ''#FF6B6B'' ''briefcase'' 1700000000000"
  let ?op2 = "ReorderFolders [''folder_1700000000000'', ''folder_games'', ''folder_other'']"
  let ?op3 = "DeleteFolder ''folder_other''"
  let ?games = "\<lparr>folder_id = ''folder_games'', folder_name = ''Games'', color = ''#FF9FF3'',
               icon = ''gamepad'', applicationIds = [''app1''], position = 0,
               createdAt = ''2024-01-01T00:00:00.000Z'', updatedAt = None\<rparr>"
  let ?other = "\<lparr>folder_id = ''folder_other'', folder_name = ''Other'', color = ''#5F27CD'',
               icon = ''grid'', applicationIds = [''app2''], position = 1,
               createdAt = ''2024-01-01T00:00:00.000Z'', updatedAt = None\<rparr>"
  let ?work = "\<lparr>folder_id = ''folder_1700000000000'', folder_name = ''Work'',
               color = ''#FF6B6B'', icon = ''briefcase'', applicationIds = [], position = 2,
               createdAt = ''2024-02-01T00:00:00.000Z'', updatedAt = None\<rparr>"
  let ?s1 = "example_store\<lparr>folders_item := Some [?games, ?other, ?work]\<rparr>"
  let ?s2 = "example_store\<lparr>folders_item :=
      Some [?work\<lparr>position := 0\<rparr>, ?games\<lparr>position := 1\<rparr>, ?other\<lparr>position := 2\<rparr>]\<rparr>"
  have s1: "apply_op ''2024-02-01T00:00:00.000Z'' ?op1 example_store = ?s1"
    by (simp add: dense_eval store_eval)
  have s2: "apply_op ''2024-02-02T00:00:00.000Z'' ?op2 ?s1 = ?s2"
    by (simp add: dense_eval store_eval)
  have h0: "stored_well_positioned example_store"
    by (simp add: stored_well_positioned_def well_positioned_def dense_def
        example_store_def empty_store_def upt_conv_Cons)
  have k1: "keeps_dense ''2024-02-01T00:00:00.000Z'' ?op1 example_store"
    by (simp add: dense_eval store_eval)
  have k2: "keeps_dense ''2024-02-02T00:00:00.000Z'' ?op2 ?s1"
    by (simp add: dense_eval store_eval) auto
  have k3: "keeps_dense ''2024-02-03T00:00:00.000Z'' ?op3 ?s2"
    by (simp add: dense_eval store_eval)
  have h: "each_call keeps_dense
        [(''2024-02-01T00:00:00.000Z'', ?op1), (''2024-02-02T00:00:00.000Z'', ?op2),
         (''2024-02-03T00:00:00.000Z'', ?op3)] example_store"
    using k1 k2 k3 by (simp add: s1 s2)
  from h0 h positions_stay_dense [OF h0 h] show ?thesis
    by blast
qed

section \<open>Application ids\<close>

lemma of_char_lt: "(of_char c :: nat) < 256"
proof -
  have "(of_char c :: nat) = of_char c mod 256" by simp
  also have "\<dots> < 256" by (rule mod_less_divisor) simp
  finally show ?thesis .
qed

lemma split_digits:
  fixes a b a' b' k :: nat
  assumes "a * k + b = a' * k + b'" "b < k" "b' < k"
  shows "a = a' \<and> b = b'"
proof -
  have "(a * k + b) div k = a" "(a * k + b) mod k = b"
    using assms(2) by simp_all
  moreover have "(a' * k + b') div k = a'" "(a' * k + b') mod k = b'"
    using assms(3) by simp_all
  ultimately show ?thesis
    using assms(1) by simp
qed

text \<open>The four sextets of a group of three bytes determine the bytes.\<close>

lemma sextets_decode:
  fixes x y z x' y' z' :: nat
  assumes 1: "x div 4 = x' div 4"
    and 2: "(x mod 4) * 16 + y div 16 = (x' mod 4) * 16 + y' div 16"
    and 3: "(y mod 16) * 4 + z div 64 = (y' mod 16) * 4 + z' div 64"
    and 4: "z mod 64 = z' mod 64"
    and b: "y < 256" "y' < 256" "z < 256" "z' < 256"
  shows "x = x' \<and> y = y' \<and> z = z'"
proof -
  have "y div 16 < 16" "y' div 16 < 16" "z div 64 < 4" "z' div 64 < 4"
    using b by simp_all
  with split_digits [OF 2] split_digits [OF 3]
  have e: "x mod 4 = x' mod 4" "y div 16 = y' div 16" "y mod 16 = y' mod 16"
    "z div 64 = z' div 64"
    by simp_all
  have "x = 4 * (x div 4) + x mod 4" "x' = 4 * (x' div 4) + x' mod 4"
    "y = 16 * (y div 16) + y mod 16" "y' = 16 * (y' div 16) + y' mod 16"
    "z = 64 * (z div 64) + z mod 64" "z' = 64 * (z' div 64) + z' mod 64"
    by simp_all
  with 1 4 e show ?thesis
    by metis
qed

lemma sextet_bounds:
  fixes x y z :: nat
  assumes "x < 256" "y < 256" "z < 256"
  shows "x div 4 < 64" "(x mod 4) * 16 + y div 16 < 64" "(y mod 16) * 4 + z div 64 < 64"
    "z mod 64 < 64" "(x mod 4) * 16 < 64" "(y mod 16) * 4 < 64"
proof -
  have "x mod 4 < 4" "y mod 16 < 16" "y div 16 < 16" "z div 64 < 4"
    using assms by simp_all
  then show "(x mod 4) * 16 + y div 16 < 64" "(y mod 16) * 4 + z div 64 < 64"
    "(x mod 4) * 16 < 64" "(y mod 16) * 4 < 64"
    by linarith+
  show "x div 4 < 64" "z mod 64 < 64"
    using assms by simp_all
qed

lemma alphabet_distinct: "distinct base64_alphabet" "length base64_alphabet = 64"
  by (simp_all add: base64_alphabet_def)

lemma base64_char_inj:
  "n < 64 \<Longrightarrow> m < 64 \<Longrightarrow> base64_char n = base64_char m \<longleftrightarrow> n = m"
  by (simp add: base64_char_def nth_eq_iff_index_eq alphabet_distinct)

lemma base64_char_not_pad: "base64_char n \<noteq> CHR ''=''"
proof -
  have "base64_char n \<in> set base64_alphabet"
    unfolding base64_char_def by (rule nth_mem) (simp add: alphabet_distinct)
  moreover have "CHR ''='' \<notin> set base64_alphabet"
    by (simp add: base64_alphabet_def)
  ultimately show ?thesis by metis
qed


text \<open>The encoding without its padding, group by group.\<close>

lemma unpadded_simps:
  "filter (\<lambda>ch. ch \<noteq> CHR ''='') (base64 []) = []"
  "filter (\<lambda>ch. ch \<noteq> CHR ''='') (base64 [a]) =
     [base64_char (of_char a div 4), base64_char ((of_char a mod 4) * 16)]"
  "filter (\<lambda>ch. ch \<noteq> CHR ''='') (base64 [a, b]) =
     [base64_char (of_char a div 4),
      base64_char ((of_char a mod 4) * 16 + of_char b div 16),
      base64_char ((of_char b mod 16) * 4)]"
  "filter (\<lambda>ch. ch \<noteq> CHR ''='') (base64 (a # b # c # rest)) =
     [base64_char (of_char a div 4),
      base64_char ((of_char a mod 4) * 16 + of_char b div 16),
      base64_char ((of_char b mod 16) * 4 + of_char c div 64),
      base64_char (of_char c mod 64)] @ filter (\<lambda>ch. ch \<noteq> CHR ''='') (base64 rest)"
  by (simp_all add: Let_def base64_char_not_pad)

lemma group_decode:
  assumes "base64_char (of_char a div 4) = base64_char (of_char a' div 4)"
    "base64_char ((of_char a mod 4) * 16 + of_char b div 16)
       = base64_char ((of_char a' mod 4) * 16 + of_char b' div 16)"
    "base64_char ((of_char b mod 16) * 4 + of_char c div 64)
       = base64_char ((of_char b' mod 16) * 4 + of_char c' div 64)"
    "base64_char (of_char c mod 64) = base64_char (of_char c' mod 64)"
  shows "a = a' \<and> b = b' \<and> c = c'"
proof -
  let ?x = "of_char a :: nat" and ?y = "of_char b :: nat" and ?z = "of_char c :: nat"
  let ?x' = "of_char a' :: nat" and ?y' = "of_char b' :: nat" and ?z' = "of_char c' :: nat"
  note bd = sextet_bounds [OF of_char_lt of_char_lt of_char_lt]
  have "?x div 4 = ?x' div 4"
    using assms(1) by (simp add: base64_char_inj bd)
  moreover have "(?x mod 4) * 16 + ?y div 16 = (?x' mod 4) * 16 + ?y' div 16"
    using assms(2) by (simp add: base64_char_inj bd)
  moreover have "(?y mod 16) * 4 + ?z div 64 = (?y' mod 16) * 4 + ?z' div 64"
    using assms(3) by (simp add: base64_char_inj bd)
  moreover have "?z mod 64 = ?z' mod 64"
    using assms(4) by (simp add: base64_char_inj bd)
  ultimately have "?x = ?x' \<and> ?y = ?y' \<and> ?z = ?z'"
    by (rule sextets_decode) (rule of_char_lt)+
  then show ?thesis by simp
qed


lemma pair_decode:
  assumes "base64_char (of_char a div 4) = base64_char (of_char a' div 4)"
    "base64_char ((of_char a mod 4) * 16 + of_char b div 16)
       = base64_char ((of_char a' mod 4) * 16 + of_char b' div 16)"
    "base64_char ((of_char b mod 16) * 4) = base64_char ((of_char b' mod 16) * 4)"
  shows "a = a' \<and> b = b'"
proof -
  let ?x = "of_char a :: nat" and ?y = "of_char b :: nat"
  let ?x' = "of_char a' :: nat" and ?y' = "of_char b' :: nat"
  note bd = sextet_bounds [OF of_char_lt of_char_lt of_char_lt]
  have "?x div 4 = ?x' div 4"
    using assms(1) by (simp add: base64_char_inj bd)
  moreover have "(?x mod 4) * 16 + ?y div 16 = (?x' mod 4) * 16 + ?y' div 16"
    using assms(2) by (simp add: base64_char_inj bd)
  moreover have "(?y mod 16) * 4 + 0 div 64 = (?y' mod 16) * 4 + 0 div 64"
    using assms(3) by (simp add: base64_char_inj bd)
  moreover have "(0::nat) mod 64 = 0 mod 64" ..
  ultimately have "?x = ?x' \<and> ?y = ?y' \<and> (0::nat) = 0"
    by (rule sextets_decode) (simp_all add: of_char_lt)
  then show ?thesis by simp
qed

lemma single_decode:
  assumes "base64_char (of_char a div 4) = base64_char (of_char a' div 4)"
    "base64_char ((of_char a mod 4) * 16) = base64_char ((of_char a' mod 4) * 16)"
  shows "a = a'"
proof -
  let ?x = "of_char a :: nat" and ?x' = "of_char a' :: nat"
  note bd = sextet_bounds [OF of_char_lt of_char_lt of_char_lt]
  have "?x div 4 = ?x' div 4"
    using assms(1) by (simp add: base64_char_inj bd)
  moreover have "(?x mod 4) * 16 + 0 div 16 = (?x' mod 4) * 16 + 0 div 16"
    using assms(2) by (simp add: base64_char_inj bd)
  moreover have "(0 mod 16) * 4 + 0 div 64 = (0 mod 16) * 4 + (0::nat) div 64" ..
  moreover have "(0::nat) mod 64 = 0 mod 64" ..
  ultimately have "?x = ?x' \<and> (0::nat) = 0 \<and> (0::nat) = 0"
    by (rule sextets_decode) simp_all
  then show ?thesis by simp
qed

text \<open>Base64 without its padding is injective.\<close>

lemma unpadded_inj:
  "filter (\<lambda>ch. ch \<noteq> CHR ''='') (base64 p) = filter (\<lambda>ch. ch \<noteq> CHR ''='') (base64 q)
     \<Longrightarrow> p = q"
proof (induction p arbitrary: q rule: base64.induct)
  case 1
  note P = "1.prems"
  show ?case
  proof (cases q rule: base64.cases)
    case q1: 1
    from P show ?thesis unfolding q1 by simp
  next
    case q2: (2 a')
    from P have False
      unfolding q2 unpadded_simps by simp
    then show ?thesis ..
  next
    case q3: (3 a' b')
    from P have False
      unfolding q3 unpadded_simps by simp
    then show ?thesis ..
  next
    case q4: (4 a' b' c' rest')
    from P have False
      unfolding q4 unpadded_simps by simp
    then show ?thesis ..
  qed
next
  case (2 a)
  note P = "2.prems"
  show ?case
  proof (cases q rule: base64.cases)
    case q1: 1
    from P have False
      unfolding q1 unpadded_simps by simp
    then show ?thesis ..
  next
    case q2: (2 a')
    from P have
      "base64_char (of_char a div 4) = base64_char (of_char a' div 4)"
      "base64_char ((of_char a mod 4) * 16) = base64_char ((of_char a' mod 4) * 16)"
      unfolding q2 unpadded_simps by simp_all
    then have "a = a'"
      by (rule single_decode)
    then show ?thesis
      unfolding q2 by simp
  next
    case q3: (3 a' b')
    from P have False
      unfolding q3 unpadded_simps by simp
    then show ?thesis ..
  next
    case q4: (4 a' b' c' rest')
    from P have False
      unfolding q4 unpadded_simps by simp
    then show ?thesis ..
  qed
next
  case (3 a b)
  note P = "3.prems"
  show ?case
  proof (cases q rule: base64.cases)
    case q1: 1
    from P have False
      unfolding q1 unpadded_simps by simp
    then show ?thesis ..
  next
    case q2: (2 a')
    from P have False
      unfolding q2 unpadded_simps by simp
    then show ?thesis ..
  next
    case q3: (3 a' b')
    from P have
      "base64_char (of_char a div 4) = base64_char (of_char a' div 4)"
      "base64_char ((of_char a mod 4) * 16 + of_char b div 16)
         = base64_char ((of_char a' mod 4) * 16 + of_char b' div 16)"
      "base64_char ((of_char b mod 16) * 4) = base64_char ((of_char b' mod 16) * 4)"
      unfolding q3 unpadded_simps by simp_all
    then have "a = a' \<and> b = b'"
      by (rule pair_decode)
    then show ?thesis
      unfolding q3 by simp
  next
    case q4: (4 a' b' c' rest')
    from P have False
      unfolding q4 unpadded_simps by simp
    then show ?thesis ..
  qed
next
  case (4 a b c rest)
  note P = "4.prems"
  show ?case
  proof (cases q rule: base64.cases)
    case q1: 1
    from P have False
      unfolding q1 unpadded_simps by simp
    then show ?thesis ..
  next
    case q2: (2 a')
    from P have False
      unfolding q2 unpadded_simps by simp
    then show ?thesis ..
  next
    case q3: (3 a' b')
    from P have False
      unfolding q3 unpadded_simps by simp
    then show ?thesis ..
  next
    case q4: (4 a' b' c' rest')
    from P have eqs:
      "base64_char (of_char a div 4) = base64_char (of_char a' div 4)"
      "base64_char ((of_char a mod 4) * 16 + of_char b div 16)
         = base64_char ((of_char a' mod 4) * 16 + of_char b' div 16)"
      "base64_char ((of_char b mod 16) * 4 + of_char c div 64)
         = base64_char ((of_char b' mod 16) * 4 + of_char c' div 64)"
      "base64_char (of_char c mod 64) = base64_char (of_char c' mod 64)"
      "filter (\<lambda>ch. ch \<noteq> CHR ''='') (base64 rest)
         = filter (\<lambda>ch. ch \<noteq> CHR ''='') (base64 rest')"
      unfolding q4 unpadded_simps by simp_all
    from group_decode [OF eqs(1-4)] "4.IH" [OF refl refl refl eqs(5)] show ?thesis
      unfolding q4 by simp
  qed
qed

lemma generateAppId_clean:
  assumes "CHR ''+'' \<notin> set (base64 p)" "CHR ''/'' \<notin> set (base64 p)"
  shows "generateAppId p = filter (\<lambda>ch. ch \<noteq> CHR ''='') (base64 p)"
  unfolding generateAppId_def
  by (rule filter_cong [OF refl]) (use assms in \<open>auto simp: stripped_def\<close>)

text \<open>
  C4, amended: \<^verbatim>\<open>generateAppId\<close> is a function of the path alone (equal paths have
  equal ids), and two distinct paths whose Base64 encodings contain neither \<^verbatim>\<open>+\<close> nor
  \<^verbatim>\<open>/\<close> have distinct ids.
\<close>

theorem generateAppId_injective:
  assumes "CHR ''+'' \<notin> set (base64 p)" "CHR ''/'' \<notin> set (base64 p)"
    and "CHR ''+'' \<notin> set (base64 q)" "CHR ''/'' \<notin> set (base64 q)"
  shows "generateAppId p = generateAppId q \<longleftrightarrow> p = q"
  using assms unpadded_inj [of p q]
  by (auto simp: generateAppId_clean)


text \<open>
  C4, as the spec states it, has distinct ids for any two distinct paths. The paths
  \<^verbatim>\<open>/Applications/Who?.app\<close> and \<^verbatim>\<open>/Applications/Who>.app\<close> differ, their encodings
  differ in one character, \<^verbatim>\<open>/\<close> against \<^verbatim>\<open>+\<close>, and both characters are deleted: the
  ids are equal.
\<close>

theorem generateAppId_collision:
  "''/Applications/Who?.app'' \<noteq> ''/Applications/Who>.app''
   \<and> base64 ''/Applications/Who?.app'' = ''L0FwcGxpY2F0aW9ucy9XaG8/LmFwcA==''
   \<and> base64 ''/Applications/Who>.app'' = ''L0FwcGxpY2F0aW9ucy9XaG8+LmFwcA==''
   \<and> generateAppId ''/Applications/Who?.app'' = ''L0FwcGxpY2F0aW9ucy9XaG8LmFwcA''
   \<and> generateAppId ''/Applications/Who>.app'' = ''L0FwcGxpY2F0aW9ucy9XaG8LmFwcA''"
  by code_simp

theorem generateAppId_injective_witness:
  "CHR ''+'' \<notin> set (base64 ''/Applications/Chess.app'')
   \<and> CHR ''/'' \<notin> set (base64 ''/Applications/Chess.app'')
   \<and> CHR ''+'' \<notin> set (base64 ''/Applications/Mail.app'')
   \<and> CHR ''/'' \<notin> set (base64 ''/Applications/Mail.app'')
   \<and> generateAppId ''/Applications/Chess.app'' \<noteq> generateAppId ''/Applications/Mail.app''"
proof -
  have h: "CHR ''+'' \<notin> set (base64 ''/Applications/Chess.app'')"
    "CHR ''/'' \<notin> set (base64 ''/Applications/Chess.app'')"
    "CHR ''+'' \<notin> set (base64 ''/Applications/Mail.app'')"
    "CHR ''/'' \<notin> set (base64 ''/Applications/Mail.app'')"
    by code_simp+
  from h generateAppId_injective [OF h] show ?thesis
    by simp
qed

section \<open>Discovery: the fallback record\<close>

lemma scan_entries_map_filter:
  "scan_entries fs now directoryPath entries =
     List.map_filter (\<lambda>entry. parseApplication fs now (path_join directoryPath entry))
       (filter (suffix ''.app'') entries)"
  by (induction entries) (simp_all add: List.map_filter_simps split: option.splits)

text \<open>
  C5, amended: for every candidate bundle, if the descriptor file is missing,
  \<^verbatim>\<open>parseApplication\<close> returns a fallback record built from the bundle's file name and
  path only, with the bundle identifier \<^verbatim>\<open>unknown.<name>\<close> and the category
  \<^verbatim>\<open>"Other"\<close>; if the descriptor is present and does not parse, it returns \<^verbatim>\<open>null\<close>.
  The scan of a directory that can be listed keeps, in order, the record of every entry
  with the suffix \<^verbatim>\<open>.app\<close> for which \<^verbatim>\<open>parseApplication\<close> returns one, and passes over
  the others: it is never aborted.
\<close>

theorem parseApplication_fallback:
  "(\<not> pathExists fs (path_join (path_join appPath ''Contents'') ''Info.plist'') \<longrightarrow>
      parseApplication fs now appPath =
        Some \<lparr>app_id = generateAppId appPath, app_name = basename appPath ''.app'',
              bundleIdentifier = ''unknown.'' @ basename appPath ''.app'', app_path = appPath,
              app_version = None, app_icon = None, category = Some ''Other'',
              lastModified = now, app_size = None\<rparr>)
   \<and> (pathExists fs (path_join (path_join appPath ''Contents'') ''Info.plist'')
        \<and> parse_plist fs (path_join (path_join appPath ''Contents'') ''Info.plist'') = None \<longrightarrow>
      parseApplication fs now appPath = None)
   \<and> (readdir fs directoryPath = Some entries \<longrightarrow>
      scanApplicationsInDirectory fs now directoryPath =
        List.map_filter (\<lambda>entry. parseApplication fs now (path_join directoryPath entry))
          (filter (suffix ''.app'') entries))"
  by (simp add: parseApplication_def createFallbackApplication_def Let_def
      scanApplicationsInDirectory_def scan_entries_map_filter)

lemma suffix_app_examples:
  "suffix ''.app'' ''Broken.app''" "\<not> suffix ''.app'' ''notes.txt''"
  "suffix ''.app'' ''Plain.app''"
  by (simp_all add: suffix_to_prefix)

lemma basename_Plain: "basename ''/Applications/Plain.app'' ''.app'' = ''Plain''"
  by (simp add: basename_def suffix_to_prefix)

text \<open>
  C5, as the spec states it, has a fallback record also for a descriptor that is present
  and fails to parse. For \<^verbatim>\<open>Broken.app\<close>, whose descriptor does not parse,
  \<^verbatim>\<open>parseApplication\<close> returns \<^verbatim>\<open>null\<close>, and the scan of \<^verbatim>\<open>/Applications\<close> returns
  the record of \<^verbatim>\<open>Plain.app\<close> alone.
\<close>

theorem parseApplication_drops_unparsed:
  "readdir example_fs ''/Applications'' = Some [''Broken.app'', ''notes.txt'', ''Plain.app'']
   \<and> pathExists example_fs ''/Applications/Broken.app/Contents/Info.plist''
   \<and> parse_plist example_fs ''/Applications/Broken.app/Contents/Info.plist'' = None
   \<and> parseApplication example_fs ''2024-01-01T00:00:00.000Z'' ''/Applications/Broken.app'' = None
   \<and> map app_path (scanApplicationsInDirectory example_fs ''2024-01-01T00:00:00.000Z''
          ''/Applications'')
      = [''/Applications/Plain.app'']"
  by (simp add: example_fs_def scanApplicationsInDirectory_def parseApplication_def
      path_join_def suffix_app_examples createFallbackApplication_def Let_def)

theorem parseApplication_fallback_witness:
  "\<not> pathExists example_fs ''/Applications/Plain.app/Contents/Info.plist''
   \<and> map_option app_name
        (parseApplication example_fs ''2024-01-01T00:00:00.000Z'' ''/Applications/Plain.app'')
      = Some ''Plain''
   \<and> map_option bundleIdentifier
        (parseApplication example_fs ''2024-01-01T00:00:00.000Z'' ''/Applications/Plain.app'')
      = Some ''unknown.Plain''
   \<and> map_option category
        (parseApplication example_fs ''2024-01-01T00:00:00.000Z'' ''/Applications/Plain.app'')
      = Some (Some ''Other'')
   \<and> pathExists example_fs ''/Applications/Broken.app/Contents/Info.plist''
   \<and> parse_plist example_fs ''/Applications/Broken.app/Contents/Info.plist'' = None
   \<and> parseApplication example_fs ''2024-01-01T00:00:00.000Z'' ''/Applications/Broken.app'' = None
   \<and> readdir example_fs ''/Applications'' = Some [''Broken.app'', ''notes.txt'', ''Plain.app'']
   \<and> map bundleIdentifier (scanApplicationsInDirectory example_fs
          ''2024-01-01T00:00:00.000Z'' ''/Applications'')
      = [''unknown.Plain'']"
proof -
  have h: "\<not> pathExists example_fs ''/Applications/Plain.app/Contents/Info.plist''"
    "pathExists example_fs ''/Applications/Broken.app/Contents/Info.plist''"
    "parse_plist example_fs ''/Applications/Broken.app/Contents/Info.plist'' = None"
    "readdir example_fs ''/Applications'' = Some [''Broken.app'', ''notes.txt'', ''Plain.app'']"
    by (simp_all add: example_fs_def)
  have p: "path_join (path_join ''/Applications/Plain.app'' ''Contents'') ''Info.plist''
      = ''/Applications/Plain.app/Contents/Info.plist''"
    "path_join (path_join ''/Applications/Broken.app'' ''Contents'') ''Info.plist''
      = ''/Applications/Broken.app/Contents/Info.plist''"
    "path_join ''/Applications'' ''Plain.app'' = ''/Applications/Plain.app''"
    "path_join ''/Applications'' ''Broken.app'' = ''/Applications/Broken.app''"
    by (simp_all add: path_join_def)
  from h parseApplication_fallback
      [where fs = example_fs and now = "''2024-01-01T00:00:00.000Z''"
         and appPath = "''/Applications/Plain.app''" and directoryPath = "''/Applications''"
         and entries = "[''Broken.app'', ''notes.txt'', ''Plain.app'']"]
    parseApplication_fallback
      [where fs = example_fs and now = "''2024-01-01T00:00:00.000Z''"
         and appPath = "''/Applications/Broken.app''" and directoryPath = "''/Applications''"
         and entries = "[''Broken.app'', ''notes.txt'', ''Plain.app'']"]
  show ?thesis
    by (simp add: p basename_Plain suffix_app_examples List.map_filter_simps)
qed

end
